(* ===== verification/Prelude.thy ===== *)
theory Prelude
  imports Main "HOL-Library.Word" "HOL-Library.State_Monad"
begin

text \<open>
  What every component of the RediCraft server model shares: the theorem collections,
  the fixed-width signed integers of the C++ code (\<open>long long\<close>, \<open>int\<close>, \<open>short\<close>) with
  their wrap-around written out, and a few facts on lists.

  A C++ member function that touches state is a value of the state monad of
  HOL-Library (\<open>('s, 'a) state\<close>): \<open>'s\<close> is the state it works on and \<open>'a\<close> its result.
\<close>

named_theorems exec_simps \<open>equations that run an operation of the model on a state\<close>
named_theorems trace_simps \<open>which lock events an operation appends to the trace\<close>
named_theorems view_simps \<open>what an operation does to the live contents of a keyspace\<close>

section \<open>Fixed-width signed integers\<close>

text \<open>
  \<open>long long\<close> is 64 bits wide, \<open>int\<close> 32, \<open>short\<close> 16. \<open>wrap64 n\<close> is the two's complement
  value the machine holds for the mathematical result \<open>n\<close>; \<open>fits64 n\<close> says that no
  overflow happens. Signed overflow is undefined behaviour in C++: an operation that can
  overflow also records the event \<open>Signed_overflow\<close> in its trace (theory \<open>Locks\<close>).
\<close>

definition fits64 :: "int \<Rightarrow> bool" where
  "fits64 n \<longleftrightarrow> - (2 ^ 63) \<le> n \<and> n < 2 ^ 63"

definition wrap64 :: "int \<Rightarrow> int" where
  "wrap64 n = (n + 2 ^ 63) mod 2 ^ 64 - 2 ^ 63"

definition fits32 :: "int \<Rightarrow> bool" where
  "fits32 n \<longleftrightarrow> - (2 ^ 31) \<le> n \<and> n < 2 ^ 31"

definition wrap16 :: "int \<Rightarrow> int" where
  "wrap16 n = (n + 2 ^ 15) mod 2 ^ 16 - 2 ^ 15"

lemma wrap64_id [simp]: "fits64 n \<Longrightarrow> wrap64 n = n"
  by (simp add: wrap64_def fits64_def)

lemma fits64_wrap64 [simp]: "fits64 (wrap64 n)"
proof -
  have "0 \<le> (n + 2 ^ 63) mod (2 ^ 64 :: int)" "(n + 2 ^ 63) mod (2 ^ 64 :: int) < 2 ^ 64"
    by (simp_all del: power_numeral)
  then show ?thesis by (simp add: wrap64_def fits64_def)
qed

lemma wrap64_eq_iff: "wrap64 n = n \<longleftrightarrow> fits64 n"
  by (metis wrap64_id fits64_wrap64)

lemma fits32_fits64: "fits32 n \<Longrightarrow> fits64 n"
  by (simp add: fits32_def fits64_def)

text \<open>
  \<open>duration_cast\<close> to a coarser unit: the whole units in a signed duration, where the C++
  division by the positive number of ticks per unit drops the fraction of either sign.
\<close>

definition whole_units :: "int \<Rightarrow> int \<Rightarrow> int" where
  "whole_units ticks per_unit =
     (if 0 \<le> ticks then ticks div per_unit else - ((- ticks) div per_unit))"

lemma whole_units_nonneg [simp]: "0 \<le> ticks \<Longrightarrow> whole_units ticks per_unit = ticks div per_unit"
  by (simp add: whole_units_def)

section \<open>Lists\<close>

lemma takeWhile_id: "(\<And>x. x \<in> set xs \<Longrightarrow> P x) \<Longrightarrow> takeWhile P xs = xs"
  by (simp add: takeWhile_eq_all_conv)

lemma dropWhile_all: "(\<And>x. x \<in> set xs \<Longrightarrow> P x) \<Longrightarrow> dropWhile P xs = []"
  by (simp add: dropWhile_eq_Nil_conv)

lemma length_dropWhile_less:
  "xs \<noteq> [] \<Longrightarrow> P (hd xs) \<Longrightarrow> length (dropWhile P xs) < length xs"
  by (cases xs) (auto intro: le_imp_less_Suc length_dropWhile_le)

section \<open>The state monad\<close>

declare State_Monad.run_state_return [exec_simps] State_Monad.run_state_bind [exec_simps]
  State_Monad.run_state_get [exec_simps] State_Monad.run_state_set [exec_simps]

lemma run_state_update [simp, exec_simps]:
  "run_state (State_Monad.update f) s = ((), f s)"
  by (simp add: State_Monad.update_def)

lemma run_state_if [simp, exec_simps]:
  "run_state (if b then m else n) s = (if b then run_state m s else run_state n s)"
  by simp

end
