(* ===== verification/Cxx_String.thy ===== *)
theory Cxx_String
  imports Prelude "HOL-Library.Char_ord"
begin

text \<open>
  The part of the C++ standard library's string facilities the server uses, on
  \<open>string\<close> (a list of bytes): \<open>isspace\<close>/\<open>toupper\<close> of the "C" locale, \<open>find\<close>, \<open>substr\<close>,
  \<open>erase\<close>, \<open>std::getline\<close>, \<open>istringstream >> token\<close>, \<open>std::to_string\<close>, \<open>std::stoll\<close>
  and \<open>std::stoi\<close>. \<open>npos\<close> is \<open>None\<close>; an exception is the left side of a sum. The lemmas
  give the laws of splitting and joining and the round trip of decimal numbers.
\<close>

section \<open>Characters\<close>

abbreviation newline :: char where "newline \<equiv> CHR 0x0A"
abbreviation carriage_return :: char where "carriage_return \<equiv> CHR 0x0D"
abbreviation tab :: char where "tab \<equiv> CHR 0x09"

definition crlf :: string where
  "crlf = [carriage_return, newline]"

definition isspace :: "char \<Rightarrow> bool" where
  "isspace c \<longleftrightarrow> c \<in> {CHR 0x20, CHR 0x09, CHR 0x0A, CHR 0x0B, CHR 0x0C, CHR 0x0D}"

definition isdigit :: "char \<Rightarrow> bool" where
  "isdigit c \<longleftrightarrow> 48 \<le> (of_char c :: nat) \<and> (of_char c :: nat) \<le> 57"

definition toupper :: "char \<Rightarrow> char" where
  "toupper c = (let n = (of_char c :: nat) in if 97 \<le> n \<and> n \<le> 122 then char_of (n - 32) else c)"

lemma isspace_consts [simp]:
  "isspace newline" "isspace carriage_return" "isspace tab" "isspace (CHR '' '')"
  by (simp_all add: isspace_def)

lemma isdigit_not_space: "isdigit c \<Longrightarrow> \<not> isspace c"
  by (auto simp: isdigit_def isspace_def)

lemma toupper_idem [simp]: "toupper (toupper c) = toupper c"
  by (auto simp: toupper_def Let_def)

section \<open>Searching and cutting\<close>

text \<open>\<open>s.find(c)\<close> and \<open>s.find(c, pos)\<close>; \<open>s.substr(pos, n)\<close> for \<open>pos \<le> s.size()\<close>.\<close>

primrec find_char :: "char \<Rightarrow> string \<Rightarrow> nat option" where
  "find_char c [] = None"
| "find_char c (x # xs) = (if x = c then Some 0 else map_option Suc (find_char c xs))"

definition find_char_from :: "char \<Rightarrow> nat \<Rightarrow> string \<Rightarrow> nat option" where
  "find_char_from c pos s =
     (if pos \<le> length s then map_option (\<lambda>i. pos + i) (find_char c (drop pos s)) else None)"

definition substr :: "string \<Rightarrow> nat \<Rightarrow> nat \<Rightarrow> string" where
  "substr s pos n = take n (drop pos s)"

definition substr_from :: "string \<Rightarrow> nat \<Rightarrow> string" where
  "substr_from s pos = drop pos s"

text \<open>\<open>s.find(pat) != npos\<close>.\<close>

primrec contains :: "string \<Rightarrow> string \<Rightarrow> bool" where
  "contains pat [] \<longleftrightarrow> pat = []"
| "contains pat (x # xs) \<longleftrightarrow> take (length pat) (x # xs) = pat \<or> contains pat xs"

lemma contains_infix: "contains pat s \<longleftrightarrow> (\<exists>us vs. s = us @ pat @ vs)"
proof (induction s)
  case (Cons x xs)
  have "take (length pat) (x # xs) = pat \<longleftrightarrow> (\<exists>vs. x # xs = pat @ vs)"
    by (metis append_eq_conv_conj append_take_drop_id)
  moreover have "(\<exists>us vs. x # xs = us @ pat @ vs)
      \<longleftrightarrow> (\<exists>vs. x # xs = pat @ vs) \<or> (\<exists>us vs. xs = us @ pat @ vs)"
    by (auto simp: Cons_eq_append_conv)
  ultimately show ?case using Cons by simp
qed simp

lemma contains_append: "contains pat a \<or> contains pat b \<Longrightarrow> contains pat (a @ b)"
proof -
  have "\<exists>us vs. a @ b = us @ pat @ vs" if "a = us @ pat @ vs" for us vs
    using that by (intro exI [of _ us] exI [of _ "vs @ b"]) simp
  moreover have "\<exists>us vs. a @ b = us @ pat @ vs" if "b = us @ pat @ vs" for us vs
    using that by (intro exI [of _ "a @ us"] exI [of _ vs]) simp
  moreover assume "contains pat a \<or> contains pat b"
  ultimately show ?thesis unfolding contains_infix by blast
qed

lemma contains_concat: "contains pat c \<Longrightarrow> c \<in> set cs \<Longrightarrow> contains pat (concat cs)"
  by (induction cs) (auto simp: contains_append)

lemma substr_contains: "substr s pos n = pat \<Longrightarrow> contains pat s"
proof -
  assume "substr s pos n = pat"
  then have "s = take pos s @ pat @ drop n (drop pos s)"
    unfolding substr_def by (metis append_take_drop_id)
  then show ?thesis unfolding contains_infix by blast
qed

lemma find_char_None: "find_char c s = None \<longleftrightarrow> c \<notin> set s"
  by (induction s) auto

lemma find_char_append: "c \<notin> set xs \<Longrightarrow> find_char c (xs @ c # ys) = Some (length xs)"
  by (induction xs) auto

lemma find_char_Some: "find_char c s = Some i \<Longrightarrow> i < length s \<and> s ! i = c \<and> c \<notin> set (take i s)"
  by (induction s arbitrary: i) (auto split: if_splits)

lemma find_char_split: "find_char c s = Some i \<Longrightarrow> s = take i s @ c # drop (Suc i) s"
  by (frule find_char_Some) (metis id_take_nth_drop)

text \<open>
  Trimming as the configuration loader writes it:
  \<open>s.erase(0, s.find_first_not_of(cs)); s.erase(s.find_last_not_of(cs) + 1)\<close>. When every
  character is in \<open>cs\<close>, the first call erases \<open>npos\<close> characters, that is all of them, and
  the second one sees an empty string (\<open>npos + 1\<close> is 0).
\<close>

primrec find_first_not_of :: "char list \<Rightarrow> string \<Rightarrow> nat option" where
  "find_first_not_of cs [] = None"
| "find_first_not_of cs (x # xs) =
     (if x \<in> set cs then map_option Suc (find_first_not_of cs xs) else Some 0)"

definition find_last_not_of :: "char list \<Rightarrow> string \<Rightarrow> nat option" where
  "find_last_not_of cs s =
     map_option (\<lambda>i. length s - 1 - i) (find_first_not_of cs (rev s))"

definition erase_front :: "char list \<Rightarrow> string \<Rightarrow> string" where
  "erase_front cs s = (case find_first_not_of cs s of None \<Rightarrow> [] | Some i \<Rightarrow> drop i s)"

definition erase_back :: "char list \<Rightarrow> string \<Rightarrow> string" where
  "erase_back cs s = (case find_last_not_of cs s of None \<Rightarrow> [] | Some i \<Rightarrow> take (i + 1) s)"

definition trim :: "char list \<Rightarrow> string \<Rightarrow> string" where
  "trim cs s = erase_back cs (erase_front cs s)"

lemma erase_front_eq: "erase_front cs s = dropWhile (\<lambda>c. c \<in> set cs) s"
  by (induction s) (auto simp: erase_front_def split: option.splits)

lemma find_first_not_of_less: "find_first_not_of cs s = Some i \<Longrightarrow> i < length s"
  by (induction s arbitrary: i) (auto split: if_splits)

lemma find_first_not_of_drop:
  "find_first_not_of cs s = Some i \<Longrightarrow> drop i s = dropWhile (\<lambda>c. c \<in> set cs) s"
  by (induction s arbitrary: i) (auto split: if_splits)

lemma find_first_not_of_None:
  "find_first_not_of cs s = None \<Longrightarrow> dropWhile (\<lambda>c. c \<in> set cs) s = []"
  by (induction s) (auto split: if_splits)

lemma erase_back_eq: "erase_back cs s = rev (dropWhile (\<lambda>c. c \<in> set cs) (rev s))"
proof (cases "find_first_not_of cs (rev s)")
  case None
  then show ?thesis
    by (simp add: erase_back_def find_last_not_of_def find_first_not_of_None)
next
  case (Some i)
  then have "i < length s" by (auto dest: find_first_not_of_less)
  then have "take (length s - 1 - i + 1) s = rev (drop i (rev s))"
    by (simp add: rev_drop Suc_diff_Suc)
  with Some show ?thesis
    by (simp add: erase_back_def find_last_not_of_def find_first_not_of_drop)
qed

section \<open>Whitespace tokens: \<open>istringstream >> token\<close>\<close>

function tokens :: "string \<Rightarrow> string list" where
  "tokens s =
     (let s' = dropWhile isspace s in
      if s' = [] then []
      else takeWhile (\<lambda>c. \<not> isspace c) s' # tokens (dropWhile (\<lambda>c. \<not> isspace c) s'))"
  by pat_completeness auto
termination
proof (relation "measure length", simp)
  fix s s' :: string
  assume s': "s' = dropWhile isspace s" and ne: "s' \<noteq> []"
  have "\<not> isspace (hd s')"
    using ne unfolding s' by (rule hd_dropWhile)
  with ne have "length (dropWhile (\<lambda>c. \<not> isspace c) s') < length s'"
    by (intro length_dropWhile_less) auto
  also have "\<dots> \<le> length s" unfolding s' by (rule length_dropWhile_le)
  finally show "(dropWhile (\<lambda>c. \<not> isspace c) s', s) \<in> measure length" by simp
qed

declare tokens.simps [simp del]

text \<open>A token is a non-empty string without whitespace.\<close>

definition is_token :: "string \<Rightarrow> bool" where
  "is_token t \<longleftrightarrow> t \<noteq> [] \<and> (\<forall>c \<in> set t. \<not> isspace c)"

lemma tokens_Nil [simp]: "tokens [] = []"
  by (simp add: tokens.simps)

lemma tokens_are_tokens: "t \<in> set (tokens s) \<Longrightarrow> is_token t"
proof (induction s rule: tokens.induct)
  case (1 s)
  let ?s = "dropWhile isspace s"
  show ?case
  proof (cases "?s = []")
    case True
    with "1.prems" show ?thesis by (simp add: tokens.simps [of s])
  next
    case False
    then have "\<not> isspace (hd ?s)" by (rule hd_dropWhile)
    with False have "is_token (takeWhile (\<lambda>c. \<not> isspace c) ?s)"
      by (cases ?s) (auto simp: is_token_def dest: set_takeWhileD)
    moreover from False have "tokens s = takeWhile (\<lambda>c. \<not> isspace c) ?s
        # tokens (dropWhile (\<lambda>c. \<not> isspace c) ?s)"
      by (subst tokens.simps) (simp only: Let_def if_False)
    ultimately show ?thesis
      using "1.prems" "1.IH" [OF refl False] by auto
  qed
qed

lemma tokens_space:
  assumes "isspace c"
  shows "tokens (c # s) = tokens s"
proof -
  have "dropWhile isspace (c # s) = dropWhile isspace s" using assms by simp
  then have "tokens (c # s) = (let s' = dropWhile isspace s in
      if s' = [] then []
      else takeWhile (\<lambda>c. \<not> isspace c) s' # tokens (dropWhile (\<lambda>c. \<not> isspace c) s'))"
    by (metis tokens.simps)
  also have "\<dots> = tokens s" by (rule tokens.simps [symmetric])
  finally show ?thesis .
qed

lemma tokens_word:
  "s \<noteq> [] \<Longrightarrow> \<not> isspace (hd s) \<Longrightarrow>
   tokens s = takeWhile (\<lambda>c. \<not> isspace c) s # tokens (dropWhile (\<lambda>c. \<not> isspace c) s)"
  by (subst tokens.simps) (cases s, simp_all)

lemma tokens_token_end:
  assumes "is_token t"
  shows "tokens t = [t]"
proof -
  have "takeWhile (\<lambda>c. \<not> isspace c) t = t" "dropWhile (\<lambda>c. \<not> isspace c) t = []"
    using assms by (auto simp: is_token_def intro!: takeWhile_id)
  moreover have "t \<noteq> []" "\<not> isspace (hd t)"
    using assms by (auto simp: is_token_def)
  ultimately show ?thesis by (metis tokens_word tokens_Nil)
qed

lemma tokens_token_space:
  assumes t: "is_token t" and c: "isspace c"
  shows "tokens (t @ c # s) = t # tokens s"
proof -
  have "takeWhile (\<lambda>c. \<not> isspace c) (t @ c # s) = t @ takeWhile (\<lambda>c. \<not> isspace c) (c # s)"
    using t by (intro takeWhile_append2) (auto simp: is_token_def)
  moreover have "dropWhile (\<lambda>c. \<not> isspace c) (t @ c # s) = dropWhile (\<lambda>c. \<not> isspace c) (c # s)"
    using t by (intro dropWhile_append2) (auto simp: is_token_def)
  moreover have "t \<noteq> []" "\<not> isspace (hd t)"
    using t by (auto simp: is_token_def)
  ultimately show ?thesis
    using c tokens_word [of "t @ c # s"] by (simp add: tokens_space)
qed

text \<open>Words joined by single spaces are read back as the words.\<close>

primrec unwords :: "string list \<Rightarrow> string" where
  "unwords [] = []"
| "unwords (w # ws) = (if ws = [] then w else w @ CHR '' '' # unwords ws)"

lemma tokens_unwords: "(\<forall>w \<in> set ws. is_token w) \<Longrightarrow> tokens (unwords ws) = ws"
  by (induction ws) (auto simp: tokens_token_end tokens_token_space)

section \<open>Lines: \<open>std::getline\<close> until the end of the file\<close>

function getlines :: "string \<Rightarrow> string list" where
  "getlines s =
     (if s = [] then []
      else takeWhile (\<lambda>c. c \<noteq> newline) s # getlines (drop 1 (dropWhile (\<lambda>c. c \<noteq> newline) s)))"
  by pat_completeness auto
termination
proof (relation "measure length", simp)
  fix s :: string
  assume "s \<noteq> []"
  moreover have "length (dropWhile (\<lambda>c. c \<noteq> newline) s) \<le> length s"
    by (rule length_dropWhile_le)
  ultimately have "length (drop 1 (dropWhile (\<lambda>c. c \<noteq> newline) s)) < length s"
    by (cases s) auto
  then show "(drop 1 (dropWhile (\<lambda>c. c \<noteq> newline) s), s) \<in> measure length" by simp
qed

declare getlines.simps [simp del]

lemma getlines_Nil [simp]: "getlines [] = []"
  by (simp add: getlines.simps)

lemma getlines_line: "newline \<notin> set l \<Longrightarrow> getlines (l @ newline # s) = l # getlines s"
proof -
  assume l: "newline \<notin> set l"
  have "takeWhile (\<lambda>c. c \<noteq> newline) (l @ newline # s) = l @ takeWhile (\<lambda>c. c \<noteq> newline) (newline # s)"
    using l by (intro takeWhile_append2) auto
  moreover have "dropWhile (\<lambda>c. c \<noteq> newline) (l @ newline # s) = dropWhile (\<lambda>c. c \<noteq> newline) (newline # s)"
    using l by (intro dropWhile_append2) auto
  ultimately show ?thesis by (subst getlines.simps) simp
qed

lemma getlines_last:
  assumes "newline \<notin> set l" and "l \<noteq> []"
  shows "getlines l = [l]"
proof -
  have "takeWhile (\<lambda>c. c \<noteq> newline) l = l" using assms by (intro takeWhile_id) auto
  moreover have "dropWhile (\<lambda>c. c \<noteq> newline) l = []" using assms by (intro dropWhile_all) auto
  ultimately show ?thesis
    using \<open>l \<noteq> []\<close> by (subst getlines.simps) (simp only: drop_Nil getlines_Nil if_False)
qed

text \<open>Lines written with a terminating newline are read back as the lines.\<close>

definition put_line :: "string \<Rightarrow> string" where
  "put_line l = l @ [newline]"

lemma getlines_concat:
  "(\<forall>l \<in> set ls. newline \<notin> set l) \<Longrightarrow> getlines (concat (map put_line ls) @ s) = ls @ getlines s"
  by (induction ls) (auto simp: put_line_def getlines_line)

section \<open>Decimal numbers: \<open>std::to_string\<close>, \<open>std::stoll\<close>, \<open>std::stoi\<close>\<close>

definition digit :: "nat \<Rightarrow> char" where
  "digit d = char_of (48 + d)"

fun nat_digits :: "nat \<Rightarrow> string" where
  "nat_digits n = (if n < 10 then [digit n] else nat_digits (n div 10) @ [digit (n mod 10)])"

declare nat_digits.simps [simp del]

definition to_string :: "int \<Rightarrow> string" where
  "to_string n = (if n < 0 then CHR ''-'' # nat_digits (nat (- n)) else nat_digits (nat n))"

datatype num_error = Invalid_argument | Out_of_range

definition digit_value :: "char \<Rightarrow> int" where
  "digit_value c = int (of_char c) - 48"

definition digits_value :: "string \<Rightarrow> int" where
  "digits_value ds = foldl (\<lambda>a c. 10 * a + digit_value c) 0 ds"

text \<open>
  \<open>strtoll\<close> in base 10: leading whitespace, an optional sign, then the longest run of
  digits; what follows is ignored. Without a digit nothing is converted.
\<close>

definition split_sign :: "string \<Rightarrow> bool \<times> string" where
  "split_sign s = (case s of [] \<Rightarrow> (False, [])
     | c # r \<Rightarrow> if c = CHR ''-'' then (True, r) else if c = CHR ''+'' then (False, r) else (False, s))"

definition strtoll :: "string \<Rightarrow> int option" where
  "strtoll s =
     (let (neg, r) = split_sign (dropWhile isspace s);
          ds = takeWhile isdigit r
      in if ds = [] then None
         else Some (if neg then - digits_value ds else digits_value ds))"

definition stoll :: "string \<Rightarrow> num_error + int" where
  "stoll s = (case strtoll s of None \<Rightarrow> Inl Invalid_argument
     | Some n \<Rightarrow> if fits64 n then Inr n else Inl Out_of_range)"

definition stoi :: "string \<Rightarrow> num_error + int" where
  "stoi s = (case strtoll s of None \<Rightarrow> Inl Invalid_argument
     | Some n \<Rightarrow> if fits32 n then Inr n else Inl Out_of_range)"

lemma of_char_digit: "d < 10 \<Longrightarrow> (of_char (digit d) :: nat) = 48 + d"
  by (simp add: digit_def)

lemma isdigit_digit: "d < 10 \<Longrightarrow> isdigit (digit d)"
  by (simp add: isdigit_def of_char_digit)

lemma nat_digits_isdigit: "\<forall>c \<in> set (nat_digits n). isdigit c"
  by (induction n rule: nat_digits.induct) (subst nat_digits.simps, auto simp: isdigit_digit)

lemma nat_digits_nonempty [simp]: "nat_digits n \<noteq> []"
  by (subst nat_digits.simps) simp

lemma digits_value_snoc: "digits_value (ds @ [c]) = 10 * digits_value ds + digit_value c"
  by (simp add: digits_value_def)

lemma digits_value_nat_digits: "digits_value (nat_digits n) = int n"
proof (induction n rule: nat_digits.induct)
  case (1 n)
  show ?case
  proof (cases "n < 10")
    case True
    then show ?thesis
      by (subst nat_digits.simps) (simp add: digits_value_def digit_value_def of_char_digit)
  next
    case False
    with "1.IH" have "digits_value (nat_digits (n div 10)) = int (n div 10)" by simp
    with False show ?thesis
      by (subst nat_digits.simps)
        (simp add: digits_value_snoc digit_value_def of_char_digit, presburger)
  qed
qed

lemma hd_nat_digits: "isdigit (hd (nat_digits n))"
  using nat_digits_isdigit [of n] by (simp add: hd_in_set)

lemma isdigit_not_sign: "isdigit c \<Longrightarrow> c \<noteq> CHR ''-'' \<and> c \<noteq> CHR ''+''"
  by (auto simp: isdigit_def)

lemma strtoll_nat_digits: "strtoll (nat_digits n) = Some (int n)"
proof -
  let ?d = "nat_digits n"
  have "dropWhile isspace ?d = ?d"
    using hd_nat_digits [of n] isdigit_not_space by (cases ?d) auto
  moreover have "split_sign ?d = (False, ?d)"
    using hd_nat_digits [of n] isdigit_not_sign by (cases ?d) (auto simp: split_sign_def)
  moreover have "takeWhile isdigit ?d = ?d"
    using nat_digits_isdigit [of n] by (intro takeWhile_id) auto
  ultimately show ?thesis
    unfolding strtoll_def by (simp only: Let_def split nat_digits_nonempty digits_value_nat_digits if_False)
qed

lemma strtoll_to_string: "strtoll (to_string n) = Some n"
proof (cases "n < 0")
  case True
  have "takeWhile isdigit (nat_digits (nat (- n))) = nat_digits (nat (- n))"
    using nat_digits_isdigit by (intro takeWhile_id) auto
  moreover have "split_sign (dropWhile isspace (to_string n)) = (True, nat_digits (nat (- n)))"
    using True by (simp add: to_string_def split_sign_def isspace_def)
  ultimately show ?thesis
    using True unfolding strtoll_def
    by (simp only: Let_def split nat_digits_nonempty digits_value_nat_digits) simp
next
  case False
  then show ?thesis by (simp add: to_string_def strtoll_nat_digits)
qed

lemma stoll_to_string [simp]: "fits64 n \<Longrightarrow> stoll (to_string n) = Inr n"
  by (simp add: stoll_def strtoll_to_string)

lemma stoi_to_string [simp]: "fits32 n \<Longrightarrow> stoi (to_string n) = Inr n"
  by (simp add: stoi_def strtoll_to_string)

lemma stoll_fits64: "stoll s = Inr n \<Longrightarrow> fits64 n"
  by (auto simp: stoll_def split: option.splits if_splits)

lemma stoi_fits32: "stoi s = Inr n \<Longrightarrow> fits32 n"
  by (auto simp: stoi_def split: option.splits if_splits)

lemma to_string_is_token: "is_token (to_string n)"
  using nat_digits_isdigit isdigit_not_space
  by (auto simp: is_token_def to_string_def isspace_def)

lemma to_string_inj: "to_string m = to_string n \<Longrightarrow> m = n"
  by (metis option.inject strtoll_to_string)

end
