(* ===== verification/Unordered_Map.thy ===== *)
theory Unordered_Map
  imports Prelude "HOL-Library.AList" "HOL-Library.Multiset"
begin

text \<open>
  \<open>std::unordered_map\<close>, the container of every keyspace of the server. The bindings are
  kept as an association list with distinct keys. The order in which the C++ container is
  iterated is unspecified, so code that iterates takes an arbitrary enumeration order
  \<open>ord\<close> of the keys (\<open>umap_entries\<close>) and no result about it depends on the list's order.

  \<open>kv_map\<close> is the contract the other components rely on; it is interpreted on the
  operations below as \<open>um\<close>.
\<close>

section \<open>The container\<close>

type_synonym ('k, 'v) umap = "('k \<times> 'v) list"

definition umap_empty :: "('k, 'v) umap" where
  "umap_empty = []"

text \<open>\<open>m.find(k)\<close>: \<open>None\<close> stands for \<open>m.end()\<close>.\<close>

definition umap_find :: "'k \<Rightarrow> ('k, 'v) umap \<Rightarrow> 'v option" where
  "umap_find k m = map_of m k"

text \<open>\<open>m[k] = v\<close>.\<close>

definition umap_put :: "'k \<Rightarrow> 'v \<Rightarrow> ('k, 'v) umap \<Rightarrow> ('k, 'v) umap" where
  "umap_put k v m = AList.update k v m"

text \<open>\<open>m.erase(k)\<close>, and \<open>m.erase(it)\<close> for the iterator \<open>it\<close> of key \<open>k\<close>.\<close>

definition umap_erase :: "'k \<Rightarrow> ('k, 'v) umap \<Rightarrow> ('k, 'v) umap" where
  "umap_erase k m = AList.delete k m"

definition umap_keys :: "('k, 'v) umap \<Rightarrow> 'k list" where
  "umap_keys m = map fst m"

definition umap_size :: "('k, 'v) umap \<Rightarrow> nat" where
  "umap_size m = length m"

definition umap_wf :: "('k, 'v) umap \<Rightarrow> bool" where
  "umap_wf m \<longleftrightarrow> distinct (map fst m)"

text \<open>
  \<open>for (const auto& pair : m)\<close>: the bindings in the order \<open>ord\<close> gives their keys.
  \<open>enumerates ord\<close> is what the standard promises of that order: each key once.
\<close>

definition umap_entries :: "('k list \<Rightarrow> 'k list) \<Rightarrow> ('k, 'v) umap \<Rightarrow> ('k \<times> 'v) list" where
  "umap_entries ord m =
     List.map_filter (\<lambda>k. map_option (Pair k) (umap_find k m)) (ord (umap_keys m))"

definition enumerates :: "('k list \<Rightarrow> 'k list) \<Rightarrow> bool" where
  "enumerates ord \<longleftrightarrow> (\<forall>ks. mset (ord ks) = mset ks)"

section \<open>The contract\<close>

locale kv_map =
  fixes empty :: "'m"
    and find :: "'k \<Rightarrow> 'm \<Rightarrow> 'v option"
    and put :: "'k \<Rightarrow> 'v \<Rightarrow> 'm \<Rightarrow> 'm"
    and erase :: "'k \<Rightarrow> 'm \<Rightarrow> 'm"
    and keys :: "'m \<Rightarrow> 'k list"
    and wf :: "'m \<Rightarrow> bool"
  assumes find_empty: "find k empty = None"
    and find_put: "find k' (put k v m) = (if k' = k then Some v else find k' m)"
    and find_erase: "find k' (erase k m) = (if k' = k then None else find k' m)"
    and in_keys: "k \<in> set (keys m) \<longleftrightarrow> find k m \<noteq> None"
    and distinct_keys: "wf m \<Longrightarrow> distinct (keys m)"
    and wf_empty: "wf empty"
    and wf_put: "wf m \<Longrightarrow> wf (put k v m)"
    and wf_erase: "wf m \<Longrightarrow> wf (erase k m)"
begin

lemma find_put_same [simp]: "find k (put k v m) = Some v"
  by (simp add: find_put)

lemma find_put_other [simp]: "k' \<noteq> k \<Longrightarrow> find k' (put k v m) = find k' m"
  by (simp add: find_put)

lemma find_erase_same [simp]: "find k (erase k m) = None"
  by (simp add: find_erase)

lemma find_erase_other [simp]: "k' \<noteq> k \<Longrightarrow> find k' (erase k m) = find k' m"
  by (simp add: find_erase)

lemma set_keys: "set (keys m) = {k. find k m \<noteq> None}"
  by (auto simp: in_keys)

lemma set_keys_put: "set (keys (put k v m)) = insert k (set (keys m))"
  by (auto simp: set_keys find_put)

lemma set_keys_erase: "set (keys (erase k m)) = set (keys m) - {k}"
  by (auto simp: set_keys find_erase)

lemma length_keys: "wf m \<Longrightarrow> length (keys m) = card (set (keys m))"
  by (simp add: distinct_keys distinct_card)

lemma length_keys_put:
  assumes "wf m"
  shows "length (keys (put k v m)) =
    (if find k m = None then Suc (length (keys m)) else length (keys m))"
proof -
  have "length (keys (put k v m)) = card (insert k (set (keys m)))"
    using assms by (simp add: length_keys wf_put set_keys_put)
  with assms show ?thesis
    by (cases "k \<in> set (keys m)") (auto simp: length_keys in_keys insert_absorb)
qed

lemma length_keys_erase:
  assumes "wf m"
  shows "length (keys (erase k m)) =
    (if find k m = None then length (keys m) else length (keys m) - 1)"
proof -
  have "length (keys (erase k m)) = card (set (keys m) - {k})"
    using assms by (simp add: length_keys wf_erase set_keys_erase)
  with assms show ?thesis
    by (cases "k \<in> set (keys m)") (auto simp: length_keys in_keys)
qed

text \<open>Storing a list of bindings one after the other: later ones win.\<close>

lemma find_fold_put:
  "find k (fold (\<lambda>(k, v). put k v) kvs m) =
     (case map_of (rev kvs) k of None \<Rightarrow> find k m | Some v \<Rightarrow> Some v)"
  by (induction kvs arbitrary: m) (auto simp: find_put map_add_def split: option.splits)

lemma wf_fold_put: "wf m \<Longrightarrow> wf (fold (\<lambda>(k, v). put k v) kvs m)"
  by (induction kvs arbitrary: m) (auto simp: wf_put)

end

section \<open>The container keeps the contract\<close>

lemma umap_find_empty: "umap_find k umap_empty = None"
  by (simp add: umap_find_def umap_empty_def)

lemma umap_wf_empty [simp]: "umap_wf umap_empty"
  by (simp add: umap_wf_def umap_empty_def)

interpretation um: kv_map umap_empty umap_find umap_put umap_erase umap_keys umap_wf
proof
  fix k k' :: 'a and v :: 'b and m :: "('a, 'b) umap"
  show "umap_find k (umap_empty :: ('a, 'b) umap) = None" by (rule umap_find_empty)
  show "umap_find k' (umap_put k v m) = (if k' = k then Some v else umap_find k' m)"
    by (simp add: umap_find_def umap_put_def update_conv')
  show "umap_find k' (umap_erase k m) = (if k' = k then None else umap_find k' m)"
    by (simp add: umap_find_def umap_erase_def delete_conv')
  show "k \<in> set (umap_keys m) \<longleftrightarrow> umap_find k m \<noteq> None"
    by (simp add: umap_find_def umap_keys_def map_of_eq_None_iff)
  show "umap_wf m \<Longrightarrow> distinct (umap_keys m)"
    by (simp add: umap_wf_def umap_keys_def)
  show "umap_wf (umap_empty :: ('a, 'b) umap)" by simp
  show "umap_wf m \<Longrightarrow> umap_wf (umap_put k v m)"
    by (simp add: umap_wf_def umap_put_def distinct_update)
  show "umap_wf m \<Longrightarrow> umap_wf (umap_erase k m)"
    by (simp add: umap_wf_def umap_erase_def distinct_delete)
qed

lemma umap_size_keys: "umap_size m = length (umap_keys m)"
  by (simp add: umap_size_def umap_keys_def)

lemma umap_empty_iff: "m = umap_empty \<longleftrightarrow> (\<forall>k. umap_find k m = None)"
proof
  assume "\<forall>k. umap_find k m = None"
  then have "set (umap_keys m) = {}" by (simp add: um.set_keys)
  then show "m = umap_empty" by (simp add: umap_keys_def umap_empty_def)
qed (simp add: um.find_empty)

section \<open>Iteration\<close>

lemma set_enumerates: "enumerates ord \<Longrightarrow> set (ord ks) = set ks"
  unfolding enumerates_def by (metis set_mset_mset)

lemma distinct_enumerates: "enumerates ord \<Longrightarrow> distinct (ord ks) \<longleftrightarrow> distinct ks"
  unfolding enumerates_def by (metis mset_eq_imp_distinct_iff)

lemma length_enumerates: "enumerates ord \<Longrightarrow> length (ord ks) = length ks"
  unfolding enumerates_def by (metis size_mset)

lemma enumerates_single: "enumerates ord \<Longrightarrow> ord [x] = [x]"
  using set_enumerates [of ord "[x]"] length_enumerates [of ord "[x]"]
  by (cases "ord [x]") auto

lemma enumerates_id [simp]: "enumerates (\<lambda>ks. ks)"
  by (simp add: enumerates_def)

lemma enumerates_rev [simp]: "enumerates rev"
  by (simp add: enumerates_def)

lemma map_fst_map_filter_Pair:
  "map fst (List.map_filter (\<lambda>k. map_option (Pair k) (f k)) ks) = filter (\<lambda>k. f k \<noteq> None) ks"
  by (induction ks) (auto simp: List.map_filter_simps split: option.splits)

lemma set_umap_entries:
  assumes "enumerates ord"
  shows "(k, v) \<in> set (umap_entries ord m) \<longleftrightarrow> umap_find k m = Some v"
  using assms by (force simp: umap_entries_def List.map_filter_def set_enumerates um.in_keys)

lemma keys_umap_entries:
  assumes "enumerates ord"
  shows "map fst (umap_entries ord m) = ord (umap_keys m)"
proof -
  have "\<forall>k \<in> set (ord (umap_keys m)). umap_find k m \<noteq> None"
    using assms by (simp add: set_enumerates um.in_keys)
  then show ?thesis
    by (simp add: umap_entries_def map_fst_map_filter_Pair filter_id_conv)
qed

lemma map_of_umap_entries:
  assumes "enumerates ord" and "umap_wf m"
  shows "map_of (umap_entries ord m) k = umap_find k m"
proof (cases "umap_find k m")
  case None
  with assms(1) have "k \<notin> fst ` set (umap_entries ord m)"
    by (force simp: set_umap_entries)
  with None show ?thesis by (simp add: map_of_eq_None_iff)
next
  case (Some v)
  have "distinct (map fst (umap_entries ord m))"
    using assms by (simp add: keys_umap_entries distinct_enumerates um.distinct_keys)
  moreover from Some assms(1) have "(k, v) \<in> set (umap_entries ord m)"
    by (simp add: set_umap_entries)
  ultimately show ?thesis using Some by simp
qed

lemma umap_entries_eq_Nil:
  assumes "enumerates ord"
  shows "umap_entries ord m = [] \<longleftrightarrow> m = umap_empty"
  using keys_umap_entries [OF assms, of m] length_enumerates [OF assms, of "umap_keys m"]
  by (auto simp: umap_keys_def umap_empty_def)

lemma umap_entries_empty: "enumerates ord \<Longrightarrow> umap_entries ord umap_empty = []"
  by (simp add: umap_entries_eq_Nil)

lemma mset_umap_entries:
  assumes "enumerates ord" and "umap_wf m"
  shows "mset (umap_entries ord m) = mset m"
proof -
  have "distinct (map fst (umap_entries ord m))" "distinct (map fst m)"
    using assms by (simp_all add: keys_umap_entries distinct_enumerates um.distinct_keys
        umap_wf_def)
  then have "distinct (umap_entries ord m)" "distinct m"
    by (simp_all add: distinct_map)
  moreover have "set (umap_entries ord m) = set m"
  proof (rule set_eqI)
    fix p :: "'a \<times> 'b"
    obtain k v where p: "p = (k, v)" by (cases p)
    show "p \<in> set (umap_entries ord m) \<longleftrightarrow> p \<in> set m"
      using assms \<open>distinct (map fst m)\<close>
      by (simp add: p set_umap_entries umap_find_def)
  qed
  ultimately show ?thesis by (simp add: set_eq_iff_mset_eq_distinct)
qed

end
