(* ===== verification/Locks.thy ===== *)
theory Locks
  imports Prelude
begin

text \<open>
  \<open>std::shared_mutex\<close> and the discipline its users must follow. Every operation of the
  model records the calls it makes on the mutexes (\<open>lock\<close>, \<open>unlock\<close>, \<open>lock_shared\<close>,
  \<open>unlock_shared\<close>; the guards \<open>std::unique_lock\<close> and \<open>std::shared_lock\<close> call them in
  their constructor and destructor) and every signed overflow, as a list of events.

  Two readings of such a list:
  \<^item> \<open>run_events\<close> is the C++ standard's: it follows the mutexes one thread owns and is
    \<open>None\<close> at the first event whose precondition fails, that is at undefined behaviour
    (a thread must not lock a mutex it already owns in any mode, and must own it in the
    mode it releases).
  \<^item> \<open>lock_step\<close> is a blocking reader-writer lock shared by any number of threads: a
    thread waits until its next event is possible.
\<close>

section \<open>Mutexes and events\<close>

text \<open>
  \<open>Storage\<close> has one mutex per keyspace, \<open>ClusterManager\<close> one for its node list. The
  order is the one in which \<open>Storage\<close> visits them.
\<close>

datatype mutex = String_mutex | Hash_mutex | List_mutex | Set_mutex | Nodes_mutex

primrec mutex_rank :: "mutex \<Rightarrow> nat" where
  "mutex_rank String_mutex = 0"
| "mutex_rank Hash_mutex = 1"
| "mutex_rank List_mutex = 2"
| "mutex_rank Set_mutex = 3"
| "mutex_rank Nodes_mutex = 4"

lemma mutex_rank_inj: "mutex_rank m = mutex_rank n \<longleftrightarrow> m = n"
  by (cases m; cases n) simp_all

instantiation mutex :: linorder
begin

definition less_eq_mutex :: "mutex \<Rightarrow> mutex \<Rightarrow> bool" where
  "less_eq_mutex m n \<longleftrightarrow> mutex_rank m \<le> mutex_rank n"

definition less_mutex :: "mutex \<Rightarrow> mutex \<Rightarrow> bool" where
  "less_mutex m n \<longleftrightarrow> mutex_rank m < mutex_rank n"

instance
  by standard (auto simp: less_eq_mutex_def less_mutex_def mutex_rank_inj [symmetric])

end

datatype event =
    Lock mutex
  | Unlock mutex
  | Lock_shared mutex
  | Unlock_shared mutex
  | Signed_overflow

section \<open>The standard's preconditions, for one thread\<close>

datatype mode = Exclusive | Shared

type_synonym held = "(mutex \<times> mode) list"

fun run_event :: "held \<Rightarrow> event \<Rightarrow> held option" where
  "run_event h (Lock m) = (if m \<in> fst ` set h then None else Some ((m, Exclusive) # h))"
| "run_event h (Lock_shared m) = (if m \<in> fst ` set h then None else Some ((m, Shared) # h))"
| "run_event h (Unlock m) =
     (if (m, Exclusive) \<in> set h then Some (remove1 (m, Exclusive) h) else None)"
| "run_event h (Unlock_shared m) =
     (if (m, Shared) \<in> set h then Some (remove1 (m, Shared) h) else None)"
| "run_event h Signed_overflow = None"

primrec run_events :: "held \<Rightarrow> event list \<Rightarrow> held option" where
  "run_events h [] = Some h"
| "run_events h (e # es) = Option.bind (run_event h e) (\<lambda>h'. run_events h' es)"

text \<open>A thread that owns nothing runs the events without undefined behaviour and owns nothing afterwards.\<close>

definition lawful :: "event list \<Rightarrow> bool" where
  "lawful es \<longleftrightarrow> run_events [] es = Some []"

lemma run_events_append [simp]:
  "run_events h (es @ fs) = Option.bind (run_events h es) (\<lambda>h'. run_events h' fs)"
  by (induction es arbitrary: h) (auto simp: Option.bind_assoc)

lemma lawful_Nil [simp]: "lawful []"
  by (simp add: lawful_def)

lemma lawful_append: "lawful es \<Longrightarrow> lawful fs \<Longrightarrow> lawful (es @ fs)"
  by (simp add: lawful_def)

lemma Signed_overflow_unlawful: "Signed_overflow \<in> set es \<Longrightarrow> run_events h es = None"
  by (induction es arbitrary: h) (auto simp: bind_eq_None_conv)

text \<open>
  Once a mutex is owned exclusively it stays so until the thread releases it, and taking it
  again in the meantime is undefined.
\<close>

lemma held_preserved:
  assumes "run_event h e = Some h'" and "(m, md) \<in> set h" and "e \<noteq> Unlock m" and "e \<noteq> Unlock_shared m"
  shows "(m, md) \<in> set h'"
proof -
  have "m \<in> fst ` set h" using assms(2) by force
  with assms show ?thesis
    by (cases "(h, e)" rule: run_event.cases) (auto split: if_splits)
qed

lemma relock_unlawful:
  assumes "(m, md) \<in> set h" and "Lock m \<in> set es \<or> Lock_shared m \<in> set es"
    and "Unlock m \<notin> set es" and "Unlock_shared m \<notin> set es"
  shows "run_events h es = None"
  using assms
proof (induction es arbitrary: h)
  case Nil
  then show ?case by simp
next
  case (Cons e es)
  show ?case
  proof (cases "run_event h e")
    case None
    then show ?thesis by simp
  next
    case (Some h')
    with Cons.prems have "(m, md) \<in> set h'" by (auto intro: held_preserved)
    moreover have "m \<in> fst ` set h" using Cons.prems(1) by force
    with Some have "e \<noteq> Lock m" "e \<noteq> Lock_shared m"
      by (metis run_event.simps(1,2) option.distinct(1))+
    ultimately show ?thesis using Cons Some by auto
  qed
qed

section \<open>Threads sharing the mutexes\<close>

text \<open>
  \<open>writer m\<close> is the thread that owns \<open>m\<close> exclusively, \<open>readers m\<close> the threads that own it
  shared (a thread once per ownership), \<open>prog t\<close> the events thread \<open>t\<close> has still to run.
\<close>

record lock_sys =
  writer :: "mutex \<Rightarrow> nat option"
  readers :: "mutex \<Rightarrow> nat list"
  prog :: "nat \<Rightarrow> event list"

definition lock_init :: "(nat \<Rightarrow> event list) \<Rightarrow> lock_sys" where
  "lock_init ps = \<lparr>writer = (\<lambda>_. None), readers = (\<lambda>_. []), prog = ps\<rparr>"

inductive lock_step :: "nat \<Rightarrow> lock_sys \<Rightarrow> lock_sys \<Rightarrow> bool" where
  lock: "prog s t = Lock m # es \<Longrightarrow> writer s m = None \<Longrightarrow> readers s m = [] \<Longrightarrow>
    lock_step t s (s\<lparr>writer := (writer s)(m := Some t), prog := (prog s)(t := es)\<rparr>)"
| lock_shared: "prog s t = Lock_shared m # es \<Longrightarrow> writer s m = None \<Longrightarrow>
    lock_step t s (s\<lparr>readers := (readers s)(m := t # readers s m), prog := (prog s)(t := es)\<rparr>)"
| unlock: "prog s t = Unlock m # es \<Longrightarrow> writer s m = Some t \<Longrightarrow>
    lock_step t s (s\<lparr>writer := (writer s)(m := None), prog := (prog s)(t := es)\<rparr>)"
| unlock_shared: "prog s t = Unlock_shared m # es \<Longrightarrow> t \<in> set (readers s m) \<Longrightarrow>
    lock_step t s (s\<lparr>readers := (readers s)(m := remove1 t (readers s m)), prog := (prog s)(t := es)\<rparr>)"
| overflow: "prog s t = Signed_overflow # es \<Longrightarrow> lock_step t s (s\<lparr>prog := (prog s)(t := es)\<rparr>)"

inductive lock_reachable :: "(nat \<Rightarrow> event list) \<Rightarrow> lock_sys \<Rightarrow> bool" for ps where
  start: "lock_reachable ps (lock_init ps)"
| step: "lock_reachable ps s \<Longrightarrow> lock_step t s s' \<Longrightarrow> lock_reachable ps s'"

inductive_cases lock_stepE: "lock_step t s s'"

text \<open>Reader-writer exclusion holds in every reachable state, whatever the threads run.\<close>

lemma exclusion:
  assumes "lock_reachable ps s" and "writer s m = Some t"
  shows "readers s m = []"
proof -
  have "\<forall>m. writer s m \<noteq> None \<longrightarrow> readers s m = []"
    using assms(1)
  proof (induction rule: lock_reachable.induct)
    case start
    show ?case by (simp add: lock_init_def)
  next
    case (step s t s')
    from step.hyps(2) step.IH show ?case
      by (elim lock_stepE) (force split: if_splits)+
  qed
  with assms(2) show ?thesis by simp
qed

subsection \<open>A thread that takes a mutex it holds never finishes\<close>

text \<open>The events ask for the mutex \<open>m\<close> before they release it.\<close>

definition asks_again :: "mutex \<Rightarrow> event list \<Rightarrow> bool" where
  "asks_again m es \<longleftrightarrow>
     (\<exists>us e vs. es = us @ e # vs \<and> (e = Lock m \<or> e = Lock_shared m) \<and> Unlock m \<notin> set us)"

lemma asks_again_nonempty [simp]: "\<not> asks_again m []"
  by (simp add: asks_again_def)

lemma asks_again_Cons:
  "asks_again m (e # es) \<longleftrightarrow> e = Lock m \<or> e = Lock_shared m \<or> e \<noteq> Unlock m \<and> asks_again m es"
proof
  assume "asks_again m (e # es)"
  then obtain us e' vs where eq: "e # es = us @ e' # vs"
    and e': "e' = Lock m \<or> e' = Lock_shared m" and us: "Unlock m \<notin> set us"
    by (auto simp: asks_again_def)
  show "e = Lock m \<or> e = Lock_shared m \<or> e \<noteq> Unlock m \<and> asks_again m es"
  proof (cases us)
    case Nil
    with eq e' show ?thesis by auto
  next
    case (Cons u us')
    with eq e' us show ?thesis by (auto simp: asks_again_def)
  qed
next
  assume "e = Lock m \<or> e = Lock_shared m \<or> e \<noteq> Unlock m \<and> asks_again m es"
  then show "asks_again m (e # es)"
  proof (elim disjE conjE)
    assume "e \<noteq> Unlock m" "asks_again m es"
    then obtain us e' vs where "es = us @ e' # vs" "e' = Lock m \<or> e' = Lock_shared m"
      "Unlock m \<notin> set us" by (auto simp: asks_again_def)
    with \<open>e \<noteq> Unlock m\<close> have "e # es = (e # us) @ e' # vs" "Unlock m \<notin> set (e # us)" by auto
    with \<open>e' = Lock m \<or> e' = Lock_shared m\<close> show ?thesis unfolding asks_again_def by blast
  qed (force simp: asks_again_def)+
qed

lemma asks_again_append: "asks_again m es \<Longrightarrow> asks_again m (es @ fs)"
  by (induction es) (auto simp: asks_again_Cons)

definition self_blocked :: "nat \<Rightarrow> mutex \<Rightarrow> lock_sys \<Rightarrow> bool" where
  "self_blocked t m s \<longleftrightarrow> writer s m = Some t \<and> asks_again m (prog s t)"

lemma self_blocked_step:
  assumes "lock_step u s s'" and "self_blocked t m s"
  shows "self_blocked t m s'"
  using assms
  by (elim lock_stepE) (auto simp: self_blocked_def asks_again_Cons split: if_splits)

text \<open>
  A program whose first event is \<open>lock\<close> and that asks for the same mutex again is never
  run to its end, whatever the other threads do.
\<close>

lemma relock_never_finishes:
  assumes "lock_reachable ps s" and "ps t = Lock m # es" and "asks_again m es"
  shows "prog s t \<noteq> []"
proof -
  have "prog s t = Lock m # es \<or> self_blocked t m s"
    using assms(1)
  proof (induction rule: lock_reachable.induct)
    case start
    show ?case using assms(2) by (simp add: lock_init_def)
  next
    case (step s u s')
    from step.IH show ?case
    proof
      assume "self_blocked t m s"
      with step.hyps(2) show ?thesis by (auto intro: self_blocked_step)
    next
      assume "prog s t = Lock m # es"
      with step.hyps(2) assms(3) show ?thesis
        by (elim lock_stepE) (auto simp: self_blocked_def)
    qed
  qed
  then show ?thesis by (auto simp: self_blocked_def)
qed

subsection \<open>Threads that hold one mutex at a time never deadlock\<close>

text \<open>\<open>flat es\<close>: every acquisition is followed by its release.\<close>

fun flat :: "event list \<Rightarrow> bool" where
  "flat [] \<longleftrightarrow> True"
| "flat (Lock m # Unlock n # es) \<longleftrightarrow> m = n \<and> flat es"
| "flat (Lock_shared m # Unlock_shared n # es) \<longleftrightarrow> m = n \<and> flat es"
| "flat _ \<longleftrightarrow> False"

fun_cases flat_LockE: "flat (Lock m # es)"
fun_cases flat_Lock_sharedE: "flat (Lock_shared m # es)"

lemma flat_append: "flat es \<Longrightarrow> flat fs \<Longrightarrow> flat (es @ fs)"
  by (induction es rule: flat.induct) auto

lemma flat_lawful: "flat es \<Longrightarrow> lawful es"
  by (induction es rule: flat.induct) (auto simp: lawful_def)

lemma flat_not_Unlock [simp]: "\<not> flat (Unlock m # es)" "\<not> flat (Unlock_shared m # es)"
  "\<not> flat (Signed_overflow # es)"
  by simp_all

lemma flat_LockD: "flat (Lock m # es) \<Longrightarrow> \<exists>fs. es = Unlock m # fs \<and> flat fs"
  by (auto elim: flat_LockE)

lemma flat_Lock_sharedD: "flat (Lock_shared m # es) \<Longrightarrow> \<exists>fs. es = Unlock_shared m # fs \<and> flat fs"
  by (auto elim: flat_Lock_sharedE)

text \<open>
  What holds when every thread runs a flat program: a thread owns a mutex exactly when the
  release of that mutex is its next event.
\<close>

definition flat_state :: "lock_sys \<Rightarrow> bool" where
  "flat_state s \<longleftrightarrow>
     (\<forall>t. flat (prog s t)
        \<or> (\<exists>m es. prog s t = Unlock m # es \<and> flat es)
        \<or> (\<exists>m es. prog s t = Unlock_shared m # es \<and> flat es))
   \<and> (\<forall>m t. writer s m = Some t \<longleftrightarrow> (\<exists>es. prog s t = Unlock m # es))
   \<and> (\<forall>m t. t \<in> set (readers s m) \<longleftrightarrow> (\<exists>es. prog s t = Unlock_shared m # es))
   \<and> (\<forall>m. distinct (readers s m))"

lemma flat_state_init:
  assumes "\<And>t. flat (ps t)"
  shows "flat_state (lock_init ps)"
proof -
  have "ps t \<noteq> Unlock m # es" "ps t \<noteq> Unlock_shared m # es" for t m es
    using assms [of t] by auto
  with assms show ?thesis by (auto simp: flat_state_def lock_init_def)
qed

lemma flat_state_release:
  assumes "flat_state s" and "prog s t = Unlock m # es \<or> prog s t = Unlock_shared m # es"
  shows "flat es"
proof -
  from assms(1) have "flat (prog s t) \<or> (\<exists>m es. prog s t = Unlock m # es \<and> flat es)
      \<or> (\<exists>m es. prog s t = Unlock_shared m # es \<and> flat es)"
    unfolding flat_state_def by blast
  with assms(2) show ?thesis by auto
qed

lemma flat_state_step:
  assumes "lock_step t s s'" and "flat_state s"
  shows "flat_state s'"
  using assms(1)
proof (cases rule: lock_step.cases)
  case (lock m es)
  with assms(2) obtain fs where "es = Unlock m # fs" "flat fs"
    unfolding flat_state_def by (metis flat_LockD event.distinct(1) event.distinct(5) list.inject)
  with lock assms(2) show ?thesis
    by (auto simp: flat_state_def) (metis option.distinct(1))
next
  case (lock_shared m es)
  with assms(2) obtain fs where "es = Unlock_shared m # fs" "flat fs"
    unfolding flat_state_def by (metis flat_Lock_sharedD event.distinct list.inject)
  with lock_shared assms(2) show ?thesis by (auto simp: flat_state_def)
next
  case (unlock m es)
  with assms(2) have "flat es" by (blast intro: flat_state_release)
  with unlock assms(2) show ?thesis
    by (auto simp: flat_state_def) (metis option.inject)
next
  case (unlock_shared m es)
  with assms(2) have "flat es" by (blast intro: flat_state_release)
  with unlock_shared assms(2) show ?thesis by (auto simp: flat_state_def)
next
  case (overflow es)
  with assms(2) have False by (auto simp: flat_state_def dest: spec [of _ t])
  then show ?thesis ..
qed

lemma flat_state_progress:
  assumes "flat_state s" and "prog s t \<noteq> []"
  shows "\<exists>u s'. lock_step u s s'"
proof -
  obtain e es where e: "prog s t = e # es" using assms(2) by (cases "prog s t") auto
  have release: "\<exists>u s'. lock_step u s s'" if "writer s m = Some u \<or> u \<in> set (readers s m)" for m u
    using that assms(1) unfolding flat_state_def
    by (metis lock_step.unlock lock_step.unlock_shared)
  show ?thesis
  proof (cases e)
    case (Lock m)
    show ?thesis
    proof (cases "writer s m = None \<and> readers s m = []")
      case True
      with e Lock show ?thesis by (blast intro: lock_step.lock)
    next
      case False
      then obtain u where "writer s m = Some u \<or> u \<in> set (readers s m)"
        by (metis list.set_intros(1) neq_Nil_conv not_None_eq)
      then show ?thesis by (rule release)
    qed
  next
    case (Lock_shared m)
    with e show ?thesis
      by (cases "writer s m") (blast intro: lock_step.lock_shared, blast intro: release)
  next
    case (Unlock m)
    with e assms(1) have "writer s m = Some t" by (auto simp: flat_state_def)
    then show ?thesis by (blast intro: release)
  next
    case (Unlock_shared m)
    with e assms(1) have "t \<in> set (readers s m)" by (auto simp: flat_state_def)
    then show ?thesis by (blast intro: release)
  next
    case Signed_overflow
    with e show ?thesis by (blast intro: lock_step.overflow)
  qed
qed

lemma flat_state_reachable:
  assumes "lock_reachable ps s" and "\<And>t. flat (ps t)"
  shows "flat_state s"
  using assms(1)
  by (induction rule: lock_reachable.induct)
    (auto intro: flat_state_init flat_state_step assms(2))

text \<open>No deadlock: as long as some thread has work left, some thread can move.\<close>

lemma flat_no_deadlock:
  assumes "lock_reachable ps s" and "\<And>t. flat (ps t)" and "prog s t \<noteq> []"
  shows "\<exists>u s'. lock_step u s s'"
  using flat_state_reachable [OF assms(1,2)] assms(3) by (rule flat_state_progress)

text \<open>
  The work left in a system of \<open>N\<close> threads is the number of events they have still to run.
  Every step does one of them, so schedules are finite.
\<close>

definition work_left :: "nat \<Rightarrow> lock_sys \<Rightarrow> nat" where
  "work_left N s = (\<Sum>t < N. length (prog s t))"

definition any_step :: "lock_sys \<Rightarrow> lock_sys \<Rightarrow> bool" where
  "any_step s s' \<longleftrightarrow> (\<exists>t. lock_step t s s')"

lemma lock_step_prog:
  assumes "lock_step t s s'"
  shows "\<exists>e es. prog s t = e # es \<and> prog s' = (prog s)(t := es)"
  using assms by cases auto

lemma work_left_step:
  assumes "lock_step t s s'" and "\<forall>u \<ge> N. prog s u = []"
  shows "Suc (work_left N s') = work_left N s \<and> (\<forall>u \<ge> N. prog s' u = [])"
proof -
  obtain e es where e: "prog s t = e # es" "prog s' = (prog s)(t := es)"
    using lock_step_prog [OF assms(1)] by blast
  with assms(2) have "t < N" by (metis list.distinct(1) not_le)
  then have "(\<Sum>u < N. length (prog s u)) = Suc (\<Sum>u < N. length (((prog s)(t := es)) u))"
    using sum.remove [of "{..<N}" t "\<lambda>u. length (prog s u)"]
      sum.remove [of "{..<N}" t "\<lambda>u. length (((prog s)(t := es)) u)"] e(1) by simp
  then show ?thesis using e assms(2) \<open>t < N\<close> by (auto simp: work_left_def)
qed

lemma work_left_steps:
  assumes "(any_step ^^ n) s s'" and "\<forall>u \<ge> N. prog s u = []"
  shows "n + work_left N s' = work_left N s \<and> (\<forall>u \<ge> N. prog s' u = [])"
  using assms(1)
proof (induction n arbitrary: s')
  case 0
  with assms(2) show ?case by simp
next
  case (Suc n)
  then obtain s1 where "(any_step ^^ n) s s1" "any_step s1 s'" by auto
  moreover then obtain t where "lock_step t s1 s'" by (auto simp: any_step_def)
  ultimately show ?case using Suc.IH work_left_step by fastforce
qed

lemma lock_reachable_steps:
  assumes "(any_step ^^ n) s s'" and "lock_reachable ps s"
  shows "lock_reachable ps s'"
  using assms(1)
proof (induction n arbitrary: s')
  case 0
  with assms(2) show ?case by simp
next
  case (Suc n)
  then obtain s1 where "lock_reachable ps s1" "any_step s1 s'" by auto
  then show ?case by (auto simp: any_step_def intro: lock_reachable.step)
qed

text \<open>Every schedule of flat programs can be completed, and takes as many steps as there are events.\<close>

lemma flat_finish:
  assumes "\<And>t. flat (ps t)" and "\<forall>t \<ge> N. ps t = []" and "(any_step ^^ n) (lock_init ps) s"
  shows "n + work_left N s = (\<Sum>t < N. length (ps t))"
    and "(\<exists>s'. any_step s s') \<or> (\<forall>t. prog s t = [])"
proof -
  have "\<forall>t \<ge> N. prog (lock_init ps) t = []" using assms(2) by (simp add: lock_init_def)
  from work_left_steps [OF assms(3) this]
  show "n + work_left N s = (\<Sum>t < N. length (ps t))" by (simp add: work_left_def lock_init_def)
  have "lock_reachable ps s"
    using assms(3) lock_reachable.start by (rule lock_reachable_steps)
  then show "(\<exists>s'. any_step s s') \<or> (\<forall>t. prog s t = [])"
    using flat_no_deadlock [of ps s] assms(1) unfolding any_step_def by blast
qed

end
