(* ===== verification/Critical_Sections.thy ===== *)
theory Critical_Sections
  imports Locks "HOL-Library.Multiset"
begin

text \<open>
  Operations on shared data under one reader-writer lock: each takes the lock (exclusive or
  shared), works on the data in several small steps, lets go of the lock and returns. Threads
  call them in sequence and their steps interleave freely as the lock permits
  (\<open>lock_step\<close>). The locale \<open>guarded\<close> proves once that such a system is serialisable: what all
  calls return and leave is what the whole calls leave when they run one after the other in
  some order that respects every thread's own; that a schedule gets stuck only where an
  operation waits for something that never comes; and that none is infinite.
  \<open>Cluster_Concurrency\<close> interprets it on \<open>ClusterManager\<close>'s node list.
\<close>

section \<open>Bodies\<close>

text \<open>
  The code between lock and unlock: it returns, waits for ever, or does one step on the data
  whose outcome decides how it goes on.
\<close>

datatype ('d, 'r) body = Return 'r | Hang | Step "'d \<Rightarrow> 'd \<times> ('d, 'r) body"

text \<open>Running a body with no other thread in between: \<open>None\<close> if it never returns.\<close>

primrec run_body :: "('d, 'r) body \<Rightarrow> 'd \<Rightarrow> ('d \<times> 'r) option" where
  "run_body (Return r) = (\<lambda>d. Some (d, r))"
| "run_body Hang = (\<lambda>d. None)"
| "run_body (Step f) = (\<lambda>d. case map_prod id run_body (f d) of (d', run) \<Rightarrow> run d')"

lemma run_body_Step [simp]: "run_body (Step f) d = (case f d of (d', b) \<Rightarrow> run_body b d')"
  by (simp add: case_prod_beta)

declare run_body.simps(3) [simp del]

text \<open>A body that only reads.\<close>

primrec only_reads :: "('d, 'r) body \<Rightarrow> bool" where
  "only_reads (Return r) \<longleftrightarrow> True"
| "only_reads Hang \<longleftrightarrow> True"
| "only_reads (Step f) \<longleftrightarrow> (\<forall>d. case map_prod id only_reads (f d) of (d', ok) \<Rightarrow> d' = d \<and> ok)"

lemma only_reads_Step [simp]:
  "only_reads (Step f) \<longleftrightarrow> (\<forall>d. fst (f d) = d \<and> only_reads (snd (f d)))"
  by (simp add: case_prod_beta)

declare only_reads.simps(3) [simp del]

lemma body_induct [case_names Return Hang Step]:
  assumes "\<And>r. P (Return r)" and "P Hang" and "\<And>f. (\<And>d. P (snd (f d))) \<Longrightarrow> P (Step f)"
  shows "P b"
proof (induction b)
  case (Return r)
  show ?case by (rule assms(1))
next
  case Hang
  show ?case by (rule assms(2))
next
  case (Step f)
  have "P (snd (f d))" for d by (rule Step [of "f d"]) (simp_all add: snds.simps)
  then show ?case by (rule assms(3))
qed

lemma only_reads_run: "only_reads b \<Longrightarrow> run_body b d = Some (d', r) \<Longrightarrow> d' = d"
  by (induction b arbitrary: d rule: body_induct) (simp_all add: case_prod_beta')

section \<open>Threads\<close>

datatype ('d, 'r) instr = Event event | Body "('d, 'r) body"

primrec instr_events :: "('d, 'r) instr list \<Rightarrow> event list" where
  "instr_events [] = []"
| "instr_events (i # rest) = (case i of Event e \<Rightarrow> [e] | Body b \<Rightarrow> []) @ instr_events rest"

record ('d, 'r) shared =
  locks :: lock_sys
  data :: 'd
  code :: "nat \<Rightarrow> ('d, 'r) instr list"
  results :: "nat \<Rightarrow> 'r list"

definition shared_init :: "(nat \<Rightarrow> ('d, 'r) instr list) \<Rightarrow> 'd \<Rightarrow> ('d, 'r) shared" where
  "shared_init ps d = \<lparr>locks = lock_init (\<lambda>t. instr_events (ps t)), data = d, code = ps,
     results = (\<lambda>_. [])\<rparr>"

text \<open>
  One step of thread \<open>t\<close>: a call on a mutex, possible when \<open>lock_step\<close> allows it, or a step
  of the body it is in, which may be its return. A body that hangs makes no step.
\<close>

inductive shared_step :: "nat \<Rightarrow> ('d, 'r) shared \<Rightarrow> ('d, 'r) shared \<Rightarrow> bool" where
  event: "code s t = Event e # rest \<Longrightarrow> lock_step t (locks s) L \<Longrightarrow>
    shared_step t s (s\<lparr>locks := L, code := (code s)(t := rest)\<rparr>)"
| body: "code s t = Body (Step f) # rest \<Longrightarrow> f (data s) = (d, b) \<Longrightarrow>
    shared_step t s (s\<lparr>data := d, code := (code s)(t := Body b # rest)\<rparr>)"
| return: "code s t = Body (Return r) # rest \<Longrightarrow>
    shared_step t s (s\<lparr>code := (code s)(t := rest), results := (results s)(t := results s t @ [r])\<rparr>)"

inductive shared_reachable :: "(nat \<Rightarrow> ('d, 'r) instr list) \<Rightarrow> 'd \<Rightarrow> ('d, 'r) shared \<Rightarrow> bool"
  for ps d where
  start: "shared_reachable ps d (shared_init ps d)"
| step: "shared_reachable ps d s \<Longrightarrow> shared_step t s s' \<Longrightarrow> shared_reachable ps d s'"

inductive_cases shared_stepE: "shared_step t s s'"

text \<open>The locks of a reachable state are those of threads that run the lock calls alone.\<close>

lemma shared_locks:
  assumes "shared_reachable ps d s"
  shows "lock_reachable (\<lambda>t. instr_events (ps t)) (locks s)
    \<and> prog (locks s) = (\<lambda>t. instr_events (code s t))"
  using assms
proof (induction rule: shared_reachable.induct)
  case start
  show ?case by (simp add: shared_init_def lock_reachable.start) (simp add: lock_init_def)
next
  case (step s t s')
  from step.hyps(2) show ?case
  proof (cases rule: shared_step.cases)
    case (event e rest L)
    obtain e' es where "prog (locks s) t = e' # es" "prog L = (prog (locks s))(t := es)"
      using lock_step_prog [OF event(3)] by blast
    moreover have "prog (locks s) t = e # instr_events rest" using step.IH event(2) by simp
    ultimately show ?thesis
      using step.IH event by (auto intro: lock_reachable.step)
  next
    case (body f rest d' b)
    with step.IH show ?thesis by (auto simp: fun_eq_iff)
  next
    case (return r rest)
    with step.IH show ?thesis by (auto simp: fun_eq_iff)
  qed
qed


text \<open>The steps as functions: what thread \<open>t\<close> does next, if it can move, and whole schedules.\<close>

definition lock_move :: "nat \<Rightarrow> lock_sys \<Rightarrow> lock_sys option" where
  "lock_move t L = (case prog L t of [] \<Rightarrow> None | e # es \<Rightarrow> (case e of
     Lock m \<Rightarrow> if writer L m = None \<and> readers L m = []
       then Some (L\<lparr>writer := (writer L)(m := Some t), prog := (prog L)(t := es)\<rparr>) else None
   | Lock_shared m \<Rightarrow> if writer L m = None
       then Some (L\<lparr>readers := (readers L)(m := t # readers L m), prog := (prog L)(t := es)\<rparr>) else None
   | Unlock m \<Rightarrow> if writer L m = Some t
       then Some (L\<lparr>writer := (writer L)(m := None), prog := (prog L)(t := es)\<rparr>) else None
   | Unlock_shared m \<Rightarrow> if t \<in> set (readers L m)
       then Some (L\<lparr>readers := (readers L)(m := remove1 t (readers L m)), prog := (prog L)(t := es)\<rparr>) else None
   | Signed_overflow \<Rightarrow> Some (L\<lparr>prog := (prog L)(t := es)\<rparr>)))"

definition shared_move :: "nat \<Rightarrow> ('d, 'r) shared \<Rightarrow> ('d, 'r) shared option" where
  "shared_move t s = (case code s t of [] \<Rightarrow> None | i # rest \<Rightarrow> (case i of
     Event e \<Rightarrow> map_option (\<lambda>L. s\<lparr>locks := L, code := (code s)(t := rest)\<rparr>) (lock_move t (locks s))
   | Body (Step f) \<Rightarrow> (case f (data s) of (d, b) \<Rightarrow>
       Some (s\<lparr>data := d, code := (code s)(t := Body b # rest)\<rparr>))
   | Body Hang \<Rightarrow> None
   | Body (Return r) \<Rightarrow>
       Some (s\<lparr>code := (code s)(t := rest), results := (results s)(t := results s t @ [r])\<rparr>)))"

primrec run_schedule :: "nat list \<Rightarrow> ('d, 'r) shared \<Rightarrow> ('d, 'r) shared option" where
  "run_schedule [] s = Some s"
| "run_schedule (t # ts) s = Option.bind (shared_move t s) (run_schedule ts)"

lemma lock_move_step: "lock_move t L = Some L' \<Longrightarrow> lock_step t L L'"
  by (auto simp: lock_move_def intro: lock_step.intros split: list.splits event.splits if_splits)

lemma shared_move_step: "shared_move t s = Some s' \<Longrightarrow> shared_step t s s'"
  by (auto simp: shared_move_def intro: shared_step.intros lock_move_step
      split: list.splits instr.splits body.splits prod.splits)

lemma run_schedule_reachable:
  "run_schedule ts s = Some s' \<Longrightarrow> shared_reachable ps d s \<Longrightarrow> shared_reachable ps d s'"
  by (induction ts arbitrary: s)
    (auto simp: bind_eq_Some_conv intro: shared_reachable.step shared_move_step)

section \<open>Calls under one lock\<close>

definition acquire :: "mutex \<Rightarrow> mode \<Rightarrow> event" where
  "acquire m md = (case md of Exclusive \<Rightarrow> Lock m | Shared \<Rightarrow> Lock_shared m)"

definition release :: "mutex \<Rightarrow> mode \<Rightarrow> event" where
  "release m md = (case md of Exclusive \<Rightarrow> Unlock m | Shared \<Rightarrow> Unlock_shared m)"

text \<open>The code of one call: the guard's constructor, the body, the guard's destructor.\<close>

definition guarded_call :: "mutex \<Rightarrow> mode \<Rightarrow> ('d, 'r) body \<Rightarrow> ('d, 'r) instr list" where
  "guarded_call m md b = [Event (acquire m md), Body b, Event (release m md)]"

text \<open>The calls of a schedule run whole, one after the other; \<open>None\<close> if one never returns.\<close>

fun serially :: "('op \<Rightarrow> 'd \<Rightarrow> ('d \<times> 'r) option) \<Rightarrow> (nat \<times> 'op) list \<Rightarrow> 'd \<Rightarrow> (nat \<Rightarrow> 'r list)
    \<Rightarrow> ('d \<times> (nat \<Rightarrow> 'r list)) option" where
  "serially whole [] d R = Some (d, R)"
| "serially whole ((t, op) # h) d R = (case whole op d of None \<Rightarrow> None
     | Some (d', r) \<Rightarrow> serially whole h d' (R(t := R t @ [r])))"

definition calls_of :: "nat \<Rightarrow> (nat \<times> 'op) list \<Rightarrow> 'op list" where
  "calls_of t h = map snd (filter (\<lambda>(u, _). u = t) h)"

lemma calls_of_snoc [simp]: "calls_of t (h @ [(u, op)]) = calls_of t h @ (if u = t then [op] else [])"
  by (simp add: calls_of_def)

lemma calls_of_Nil [simp]: "calls_of t [] = []"
  by (simp add: calls_of_def)

lemma serially_snoc:
  "serially whole (h @ [(t, op)]) d R =
    Option.bind (serially whole h d R) (\<lambda>(d', R').
      map_option (\<lambda>(d'', r). (d'', R'(t := R' t @ [r]))) (whole op d'))"
  by (induction whole h d R rule: serially.induct)
    (simp_all del: fun_upd_apply split: option.splits)

definition owns :: "mutex \<Rightarrow> ('d, 'r) shared \<Rightarrow> nat \<Rightarrow> mode \<Rightarrow> bool" where
  "owns m s t md = (case md of Exclusive \<Rightarrow> writer (locks s) m = Some t
     | Shared \<Rightarrow> t \<in> set (readers (locks s) m))"

lemma acquire_step:
  assumes "lock_step t K L" and "prog K t = acquire m md # es"
  shows "writer K m = None" and "md = Exclusive \<Longrightarrow> readers K m = []"
    and "writer L m = (if md = Exclusive then Some t else None)"
    and "readers L m = (if md = Exclusive then [] else t # readers K m)"
  using assms by (auto simp: acquire_def elim!: lock_stepE split: mode.splits)

lemma release_step:
  assumes "lock_step t K L" and "prog K t = release m md # es"
  shows "writer L m = (if md = Exclusive then None else writer K m)"
    and "readers L m = (if md = Exclusive then readers K m else remove1 t (readers K m))"
  using assms by (auto simp: release_def elim!: lock_stepE split: mode.splits)

section \<open>Serialisability\<close>

text \<open>
  A family of operations on data guarded by one mutex: how each takes the lock, its body, and
  what it does as a whole. An operation that takes the lock shared must not write.
\<close>

locale guarded =
  fixes guard :: mutex
    and how :: "'op \<Rightarrow> mode"
    and work :: "'op \<Rightarrow> ('d, 'r) body"
    and whole :: "'op \<Rightarrow> 'd \<Rightarrow> ('d \<times> 'r) option"
  assumes run_work: "run_body (work op) d = whole op d"
    and shared_reads: "how op = Shared \<Longrightarrow> only_reads (work op)"
begin

definition program :: "'op list \<Rightarrow> ('d, 'r) instr list" where
  "program ops = concat (map (\<lambda>op. guarded_call guard (how op) (work op)) ops)"

lemma program_simps [simp]:
  "program [] = []"
  "program (op # ops) = Event (acquire guard (how op)) # Body (work op)
     # Event (release guard (how op)) # program ops"
  by (simp_all add: program_def guarded_call_def)

text \<open>Where a thread can be, \<open>ops\<close> being the calls it has still to return from, \<open>D\<close> the data after
  the calls that have returned.\<close>

definition outside :: "('d, 'r) shared \<Rightarrow> nat \<Rightarrow> 'op list \<Rightarrow> bool" where
  "outside s t ops \<longleftrightarrow> code s t = program ops \<and> (\<forall>md. \<not> owns guard s t md)"

definition inside :: "('d, 'r) shared \<Rightarrow> 'd \<Rightarrow> nat \<Rightarrow> 'op list \<Rightarrow> bool" where
  "inside s D t ops \<longleftrightarrow> (\<exists>op ops' b. ops = op # ops'
     \<and> code s t = Body b # Event (release guard (how op)) # program ops'
     \<and> owns guard s t (how op) \<and> run_body b (data s) = whole op D
     \<and> (how op = Shared \<longrightarrow> only_reads b))"

definition leaving :: "('d, 'r) shared \<Rightarrow> nat \<Rightarrow> 'op list \<Rightarrow> bool" where
  "leaving s t ops \<longleftrightarrow> (\<exists>md. code s t = Event (release guard md) # program ops \<and> owns guard s t md)"

definition thread_ok :: "('d, 'r) shared \<Rightarrow> 'd \<Rightarrow> nat \<Rightarrow> 'op list \<Rightarrow> bool" where
  "thread_ok s D t ops \<longleftrightarrow> outside s t ops \<or> inside s D t ops \<or> leaving s t ops"

text \<open>The data are those after the calls that have returned, unless a writer is at work.\<close>

definition settled :: "('d, 'r) shared \<Rightarrow> 'd \<Rightarrow> bool" where
  "settled s D \<longleftrightarrow> data s = D \<or>
     (\<exists>t b rest. writer (locks s) guard = Some t \<and> code s t = Body b # rest)"

definition consistent :: "(nat \<Rightarrow> 'op list) \<Rightarrow> 'd \<Rightarrow> ('d, 'r) shared \<Rightarrow> (nat \<times> 'op) list \<Rightarrow> 'd \<Rightarrow> bool" where
  "consistent ps d s h D \<longleftrightarrow> serially whole h d (\<lambda>_. []) = Some (D, results s)
     \<and> distinct (readers (locks s) guard) \<and> settled s D
     \<and> (\<forall>t. \<exists>ops. ps t = calls_of t h @ ops \<and> thread_ok s D t ops)"

lemma consistentI:
  assumes "serially whole h d (\<lambda>_. []) = Some (D, results s)" and "distinct (readers (locks s) guard)"
    and "settled s D" and "\<And>t. ps t = calls_of t h @ opsf t" and "\<And>t. thread_ok s D t (opsf t)"
  shows "consistent ps d s h D"
  using assms unfolding consistent_def by blast

lemma consistentE:
  assumes "consistent ps d s h D"
  obtains opsf where "serially whole h d (\<lambda>_. []) = Some (D, results s)"
    and "distinct (readers (locks s) guard)" and "settled s D"
    and "\<And>t. ps t = calls_of t h @ opsf t" and "\<And>t. thread_ok s D t (opsf t)"
  using assms unfolding consistent_def by metis

lemma thread_ok_frame:
  assumes "thread_ok s D u ops" and "code s' u = code s u" and "data s' = data s"
    and "\<And>md. owns guard s' u md = owns guard s u md"
  shows "thread_ok s' D u ops"
  using assms by (simp add: thread_ok_def outside_def inside_def leaving_def)

lemma thread_ok_not_owner:
  assumes "thread_ok s D u ops" and "code s' u = code s u"
    and "\<And>md. \<not> owns guard s u md" and "\<And>md. \<not> owns guard s' u md"
  shows "thread_ok s' D' u ops"
  using assms by (auto simp: thread_ok_def outside_def inside_def leaving_def)

lemma program_not_body [simp]: "program ops \<noteq> Body b # rest" "Body b # rest \<noteq> program ops"
  by (cases ops; simp)+

lemma program_event:
  assumes "program ops = Event e # rest"
  obtains op ops' where "ops = op # ops'" "e = acquire guard (how op)"
    "rest = Body (work op) # Event (release guard (how op)) # program ops'"
  using assms by (cases ops) auto

text \<open>The owners of the lock: one writer and no reader, or readers only.\<close>

definition excluding :: "('d, 'r) shared \<Rightarrow> bool" where
  "excluding s \<longleftrightarrow> (writer (locks s) guard \<noteq> None \<longrightarrow> readers (locks s) guard = [])"

lemma writer_alone:
  assumes "excluding s" and "owns guard s t Exclusive" and "u \<noteq> t"
  shows "\<not> owns guard s u md"
  using assms by (cases md) (auto simp: excluding_def owns_def)

lemma not_owned_free:
  assumes "\<nexists>u md. owns guard s u md"
  shows "writer (locks s) guard = None \<and> readers (locks s) guard = []"
proof -
  have "\<not> owns guard s u Exclusive" "\<not> owns guard s u Shared" for u using assms by blast+
  then show ?thesis by (cases "readers (locks s) guard") (auto simp: owns_def)
qed

lemma owns_code:
  "owns guard (s\<lparr>code := c\<rparr>) u md = owns guard s u md"
  "owns guard (s\<lparr>data := d, code := c\<rparr>) u md = owns guard s u md"
  "owns guard (s\<lparr>code := c, results := r\<rparr>) u md = owns guard s u md"
  by (cases md; simp add: owns_def)+

text \<open>Taking and releasing the lock: what becomes of the thread, the others and the data.\<close>

lemma entering:
  assumes out: "outside s t ops" and sett: "settled s D" and dist: "distinct (readers (locks s) guard)"
    and prog: "prog (locks s) t = instr_events (code s t)"
    and code: "code s t = Event e # rest" and L: "lock_step t (locks s) L"
    and s': "s' = s\<lparr>locks := L, code := (code s)(t := rest)\<rparr>"
  shows "thread_ok s' D t ops \<and> settled s' D \<and> distinct (readers L guard)
    \<and> (\<forall>u md. u \<noteq> t \<longrightarrow> owns guard s' u md = owns guard s u md)"
proof -
  from out obtain op ops' where op: "ops = op # ops'" "e = acquire guard (how op)"
    "rest = Body (work op) # Event (release guard (how op)) # program ops'"
    and none: "\<And>md. \<not> owns guard s t md"
    using code by (metis outside_def program_event)
  have "prog (locks s) t = acquire guard (how op) # instr_events rest"
    using prog code op(2) by simp
  note acq = acquire_step [OF L this]
  have D: "data s = D" using sett acq(1) by (simp add: settled_def)
  have own: "owns guard s' t (how op)" by (cases "how op") (simp_all add: owns_def acq s')
  have "inside s' D t ops"
    using D op own by (auto simp: inside_def run_work shared_reads s')
  moreover have "distinct (readers L guard)"
    using dist none [of Shared] by (simp add: acq owns_def)
  moreover have "owns guard s' u md = owns guard s u md" if "u \<noteq> t" for u md
    using that acq(1,2) by (cases md; cases "how op") (auto simp: owns_def acq(3,4) s')
  ultimately show ?thesis using D by (simp add: thread_ok_def settled_def s')
qed

lemma exiting:
  assumes out: "leaving s t ops" and sett: "settled s D" and dist: "distinct (readers (locks s) guard)"
    and excl: "excluding s" and prog: "prog (locks s) t = instr_events (code s t)"
    and code: "code s t = Event e # rest" and L: "lock_step t (locks s) L"
    and s': "s' = s\<lparr>locks := L, code := (code s)(t := rest)\<rparr>"
  shows "thread_ok s' D t ops \<and> settled s' D \<and> distinct (readers L guard)
    \<and> (\<forall>u md. u \<noteq> t \<longrightarrow> owns guard s' u md = owns guard s u md)"
proof -
  from out obtain md where md: "e = release guard md" "rest = program ops" and own: "owns guard s t md"
    using code by (auto simp: leaving_def)
  have "prog (locks s) t = release guard md # instr_events rest"
    using prog code md(1) by simp
  note rel = release_step [OF L this]
  have D: "data s = D"
    using sett own code excl by (cases md) (auto simp: settled_def owns_def excluding_def)
  have "outside s' t ops"
    unfolding outside_def using own excl dist md(2)
    by (cases md) (auto simp: owns_def rel excluding_def s' split: mode.splits)
  moreover have "owns guard s' u md' = owns guard s u md'" if "u \<noteq> t" for u md'
    using that own by (cases md; cases md') (auto simp: owns_def rel s')
  ultimately show ?thesis using D dist by (simp add: thread_ok_def settled_def rel s')
qed

lemma step_event:
  assumes cons: "consistent ps d s h D" and excl: "excluding s"
    and prog: "prog (locks s) t = instr_events (code s t)"
    and code: "code s t = Event e # rest" and L: "lock_step t (locks s) L"
  shows "consistent ps d (s\<lparr>locks := L, code := (code s)(t := rest)\<rparr>) h D"
proof -
  let ?s = "s\<lparr>locks := L, code := (code s)(t := rest)\<rparr>"
  from cons obtain opsf where ser: "serially whole h d (\<lambda>_. []) = Some (D, results s)"
    and dist: "distinct (readers (locks s) guard)" and sett: "settled s D"
    and ops: "\<And>u. ps u = calls_of u h @ opsf u" "\<And>u. thread_ok s D u (opsf u)"
    by (rule consistentE) blast
  have "outside s t (opsf t) \<or> leaving s t (opsf t)"
    using ops(2) [of t] code by (auto simp: thread_ok_def inside_def)
  then have new: "thread_ok ?s D t (opsf t) \<and> settled ?s D \<and> distinct (readers L guard)
      \<and> (\<forall>u md. u \<noteq> t \<longrightarrow> owns guard ?s u md = owns guard s u md)"
    using entering [OF _ sett dist prog code L refl] exiting [OF _ sett dist excl prog code L refl] by blast
  have others: "thread_ok ?s D u (opsf u)" if "u \<noteq> t" for u
    using that new by (intro thread_ok_frame [OF ops(2)]) auto
  show ?thesis
  proof (rule consistentI [where opsf = opsf])
    show "thread_ok ?s D u (opsf u)" for u using new others by (cases "u = t") simp_all
  qed (use ser ops(1) new in simp_all)
qed

lemma step_body:
  assumes cons: "consistent ps d s h D" and excl: "excluding s"
    and code: "code s t = Body (Step f) # rest" and f: "f (data s) = (d', b)"
  shows "consistent ps d (s\<lparr>data := d', code := (code s)(t := Body b # rest)\<rparr>) h D"
proof -
  let ?s = "s\<lparr>data := d', code := (code s)(t := Body b # rest)\<rparr>"
  from cons obtain opsf where ser: "serially whole h d (\<lambda>_. []) = Some (D, results s)"
    and dist: "distinct (readers (locks s) guard)" and sett: "settled s D"
    and ops: "\<And>u. ps u = calls_of u h @ opsf u" "\<And>u. thread_ok s D u (opsf u)"
    by (rule consistentE) blast
  have "inside s D t (opsf t)"
    using ops(2) [of t] code by (auto simp: thread_ok_def outside_def leaving_def)
  then obtain op ops' where op: "opsf t = op # ops'"
      "rest = Event (release guard (how op)) # program ops'"
    and own: "owns guard s t (how op)" and run: "run_body (Step f) (data s) = whole op D"
    and reads: "how op = Shared \<Longrightarrow> only_reads (Step f)"
    using code by (auto simp: inside_def)
  have own': "owns guard ?s u md = owns guard s u md" for u md by (rule owns_code)
  have reads_b: "how op = Shared \<Longrightarrow> only_reads b" using reads f by (metis only_reads_Step snd_conv)
  have "inside ?s D t (opsf t)"
    using op own run f own' reads_b by (auto simp: inside_def)
  then have t: "thread_ok ?s D t (opsf t)" by (simp add: thread_ok_def)
  show ?thesis
  proof (cases "how op")
    case Exclusive
    with own have alone: "\<not> owns guard s u md" if "u \<noteq> t" for u md
      using writer_alone excl that by metis
    then have "thread_ok ?s D u (opsf u)" for u
      using t ops(2) [of u] own' by (cases "u = t") (auto intro: thread_ok_not_owner [of s])
    moreover have "settled ?s D" using own Exclusive by (auto simp: settled_def owns_def)
    ultimately show ?thesis
      using ser dist ops(1) by (intro consistentI [where opsf = opsf]) (simp, simp, blast, blast, blast)
  next
    case Shared
    with reads f have "d' = data s" by (metis fst_conv only_reads_Step)
    then have "thread_ok ?s D u (opsf u)" for u
      using t ops(2) [of u] own' by (cases "u = t") (auto intro: thread_ok_frame [of s])
    moreover have "settled ?s D"
      using sett \<open>d' = data s\<close> code by (auto simp: settled_def)
    ultimately show ?thesis
      using ser dist ops(1) by (intro consistentI [where opsf = opsf]) (simp, simp, blast, blast, blast)
  qed
qed

lemma step_return:
  assumes cons: "consistent ps d s h D" and excl: "excluding s"
    and code: "code s t = Body (Return r) # rest"
  shows "\<exists>op. consistent ps d
    (s\<lparr>code := (code s)(t := rest), results := (results s)(t := results s t @ [r])\<rparr>)
    (h @ [(t, op)]) (data s)"
proof -
  let ?s = "s\<lparr>code := (code s)(t := rest), results := (results s)(t := results s t @ [r])\<rparr>"
  from cons obtain opsf where ser: "serially whole h d (\<lambda>_. []) = Some (D, results s)"
    and dist: "distinct (readers (locks s) guard)" and sett: "settled s D"
    and ops: "\<And>u. ps u = calls_of u h @ opsf u" "\<And>u. thread_ok s D u (opsf u)"
    by (rule consistentE) blast
  have "inside s D t (opsf t)"
    using ops(2) [of t] code by (auto simp: thread_ok_def outside_def leaving_def)
  then obtain op ops' where op: "opsf t = op # ops'"
      "rest = Event (release guard (how op)) # program ops'"
    and own: "owns guard s t (how op)" and run: "whole op D = Some (data s, r)"
    using code by (auto simp: inside_def)
  have own': "owns guard ?s u md = owns guard s u md" for u md by (rule owns_code)
  have t: "thread_ok ?s (data s) t ops'"
    using own op(2) own' by (auto simp: thread_ok_def leaving_def)
  have others: "thread_ok ?s (data s) u (opsf u)" if "u \<noteq> t" for u
  proof (cases "how op")
    case Exclusive
    with own have "\<not> owns guard s u md" for md using writer_alone excl that by metis
    then show ?thesis using that ops(2) [of u] own' by (auto intro: thread_ok_not_owner [of s])
  next
    case Shared
    then have "D = data s"
      using run only_reads_run [OF shared_reads [OF Shared]] by (metis run_work)
    then show ?thesis using that ops(2) [of u] own' by (auto intro: thread_ok_frame [of s])
  qed
  have "consistent ps d ?s (h @ [(t, op)]) (data s)"
  proof (rule consistentI [where opsf = "opsf(t := ops')"])
    show "serially whole (h @ [(t, op)]) d (\<lambda>_. []) = Some (data s, results ?s)"
      using ser run by (simp add: serially_snoc)
    show "distinct (readers (locks ?s) guard)" using dist by simp
    show "settled ?s (data s)" by (simp add: settled_def)
    show "ps u = calls_of u (h @ [(t, op)]) @ (opsf(t := ops')) u" for u
      using ops(1) [of u] op(1) by simp
    show "thread_ok ?s (data s) u ((opsf(t := ops')) u)" for u
      using t others by simp
  qed
  then show ?thesis ..
qed

lemma excluding_reachable: "shared_reachable is0 d s \<Longrightarrow> excluding s"
  using shared_locks [of is0 d s] exclusion [of "\<lambda>t. instr_events (is0 t)" "locks s"]
  by (auto simp: excluding_def)

lemma consistent_reachable:
  assumes "shared_reachable (\<lambda>t. program (ps t)) d s"
  shows "\<exists>h D. consistent ps d s h D"
  using assms
proof (induction rule: shared_reachable.induct)
  case start
  have "consistent ps d (shared_init (\<lambda>t. program (ps t)) d) [] d"
    by (rule consistentI [where opsf = ps])
      (simp_all add: shared_init_def lock_init_def settled_def thread_ok_def outside_def owns_def
        split: mode.splits)
  then show ?case by blast
next
  case (step s t s')
  then obtain h D where cons: "consistent ps d s h D" by blast
  have excl: "excluding s" using step.hyps(1) by (rule excluding_reachable)
  from step.hyps(2) show ?case
  proof (cases rule: shared_step.cases)
    case (event e rest L)
    moreover have "prog (locks s) t = instr_events (code s t)"
      using shared_locks [OF step.hyps(1)] by simp
    ultimately show ?thesis using step_event [OF cons excl] by blast
  next
    case (body f rest d' b)
    then show ?thesis using step_body [OF cons excl] by blast
  next
    case (return r rest)
    then show ?thesis using step_return [OF cons excl] by blast
  qed
qed

text \<open>
  In every reachable state the results are those of whole calls, run one after the other: for
  every thread the calls it has returned from, in its order. The data are theirs too whenever
  no thread holds the lock exclusively.
\<close>

lemma serialisable:
  assumes "shared_reachable (\<lambda>t. program (ps t)) d s"
  shows "\<exists>h rest D. (\<forall>t. ps t = calls_of t h @ rest t) \<and> serially whole h d (\<lambda>_. []) = Some (D, results s)
    \<and> (writer (locks s) guard = None \<longrightarrow> data s = D) \<and> (\<forall>t. code s t = [] \<longrightarrow> rest t = [])"
proof -
  obtain h D where "consistent ps d s h D" using consistent_reachable [OF assms] by blast
  then obtain opsf where ser: "serially whole h d (\<lambda>_. []) = Some (D, results s)" and sett: "settled s D"
    and ops: "\<And>u. ps u = calls_of u h @ opsf u" "\<And>u. thread_ok s D u (opsf u)"
    by (rule consistentE) blast
  have "opsf t = []" if "code s t = []" for t
    using ops(2) [of t] that
    by (cases "opsf t") (auto simp: thread_ok_def outside_def inside_def leaving_def)
  with ser ops(1) sett show ?thesis unfolding settled_def
    by (intro exI [of _ h] exI [of _ opsf] exI [of _ D]) auto
qed

text \<open>
  As long as some thread has code left, some thread can move, unless the owner of the lock
  hangs; and that it does not when all calls return.
\<close>

lemma stuck_or_moves:
  assumes "shared_reachable (\<lambda>t. program (ps t)) d s" and "code s t \<noteq> []"
  shows "(\<exists>u s'. shared_step u s s') \<or> (\<exists>u rest md. code s u = Body Hang # rest \<and> owns guard s u md)"
proof -
  obtain h D where "consistent ps d s h D" using consistent_reachable [OF assms(1)] by blast
  then obtain opsf where ops: "\<And>u. thread_ok s D u (opsf u)" by (rule consistentE) blast
  have prog: "prog (locks s) u = instr_events (code s u)" for u
    using shared_locks [OF assms(1)] by simp
  show ?thesis
  proof (cases "\<exists>u md. owns guard s u md")
    case True
    then obtain u md where own: "owns guard s u md" by blast
    with ops [of u] consider b rest where "code s u = Body b # rest" "owns guard s u md"
      | md rest where "code s u = Event (release guard md) # rest" "owns guard s u md"
      by (auto simp: thread_ok_def outside_def inside_def leaving_def)
    then show ?thesis
    proof cases
      case (1 b rest)
      then show ?thesis
        by (cases b) (auto intro: shared_step.return, metis shared_step.body surj_pair)
    next
      case (2 md' rest)
      then have "prog (locks s) u = release guard md' # instr_events rest" using prog by simp
      with 2(2) have "\<exists>L. lock_step u (locks s) L"
        by (cases md') (auto simp: owns_def release_def
            intro: lock_step.unlock lock_step.unlock_shared)
      with 2(1) show ?thesis by (blast intro: shared_step.event)
    qed
  next
    case False
    then have free: "writer (locks s) guard = None" "readers (locks s) guard = []"
      using not_owned_free by blast+
    from False ops [of t] have "code s t = program (opsf t)"
      by (auto simp: thread_ok_def outside_def inside_def leaving_def)
    with assms(2) obtain op ops' where code: "code s t = Event (acquire guard (how op)) # Body (work op)
        # Event (release guard (how op)) # program ops'"
      by (cases "opsf t") auto
    then have "prog (locks s) t = acquire guard (how op) # instr_events (tl (code s t))"
      using prog [of t] by simp
    with free have "\<exists>L. lock_step t (locks s) L"
      by (cases "how op") (auto simp: acquire_def intro: lock_step.lock lock_step.lock_shared)
    with code show ?thesis by (blast intro: shared_step.event)
  qed
qed

lemma no_deadlock:
  assumes "shared_reachable (\<lambda>t. program (ps t)) d s" and "code s t \<noteq> []"
    and returns: "\<And>t op d. op \<in> set (ps t) \<Longrightarrow> whole op d \<noteq> None"
  shows "\<exists>u s'. shared_step u s s'"
proof -
  have "code s u \<noteq> Body Hang # rest" for u rest
  proof
    assume hang: "code s u = Body Hang # rest"
    obtain h D where "consistent ps d s h D" using consistent_reachable [OF assms(1)] by blast
    then obtain opsf where ops: "\<And>u. ps u = calls_of u h @ opsf u" "\<And>u. thread_ok s D u (opsf u)"
      by (rule consistentE) blast
    have "inside s D u (opsf u)"
      using ops(2) [of u] hang by (auto simp: thread_ok_def outside_def leaving_def)
    then obtain op ops' where "opsf u = op # ops'" "run_body Hang (data s) = whole op D"
      using hang by (auto simp: inside_def)
    then have "op \<in> set (opsf u)" "whole op D = None" by simp_all
    with returns [of op u D] ops(1) [of u] show False by (metis UnI2 set_append)
  qed
  with stuck_or_moves [OF assms(1,2)] show ?thesis by blast
qed

text \<open>While one thread holds the lock exclusively no other thread moves at all.\<close>

lemma writer_blocks:
  assumes "shared_reachable (\<lambda>t. program (ps t)) d s" and "writer (locks s) guard = Some t"
    and "u \<noteq> t"
  shows "\<not> shared_step u s s'"
proof
  assume step: "shared_step u s s'"
  obtain h D where "consistent ps d s h D" using consistent_reachable [OF assms(1)] by blast
  then obtain opsf where ops: "\<And>u. thread_ok s D u (opsf u)" by (rule consistentE) blast
  have "\<not> owns guard s u md" for md
    using writer_alone [of s t u md] excluding_reachable [OF assms(1)] assms(2,3) by (simp add: owns_def)
  then have code: "code s u = program (opsf u)"
    using ops [of u] by (auto simp: thread_ok_def outside_def inside_def leaving_def)
  from step show False
  proof (cases rule: shared_step.cases)
    case (event e rest L)
    then obtain op where "e = acquire guard (how op)" using code by (metis program_event)
    then have "prog (locks s) u = acquire guard (how op) # instr_events rest"
      using shared_locks [OF assms(1)] event(2) by simp
    from acquire_step(1) [OF event(3) this] assms(2) show False by simp
  qed (use code in simp_all)
qed

text \<open>If it hangs there, nothing ever moves again.\<close>

lemma hanging_writer_stops_all:
  assumes "shared_reachable (\<lambda>t. program (ps t)) d s" and "writer (locks s) guard = Some t"
    and "code s t = Body Hang # rest"
  shows "\<not> shared_step u s s'"
  using writer_blocks [OF assms(1,2)] assms(3) by (cases "u = t") (auto elim: shared_stepE)

end

section \<open>Termination\<close>

text \<open>A step removes an instruction, or replaces the rest of a body by what follows it.\<close>

definition instr_less :: "(('d, 'r) instr \<times> ('d, 'r) instr) set" where
  "instr_less = {(Body (snd (f d)), Body (Step f)) | f d. True}"

lemma wf_instr_less: "wf instr_less"
proof (rule acc_wfI, rule allI)
  fix i :: "('d, 'r) instr"
  have body: "Body b \<in> Wellfounded.acc instr_less" for b :: "('d, 'r) body"
    by (induction b rule: body_induct) (rule accI, auto simp: instr_less_def)+
  show "i \<in> Wellfounded.acc instr_less"
    by (cases i) (rule accI, simp add: instr_less_def, simp add: body)
qed

definition instrs_left :: "nat \<Rightarrow> ('d, 'r) shared \<Rightarrow> ('d, 'r) instr multiset" where
  "instrs_left N s = (\<Sum>t < N. mset (code s t))"

lemma shared_step_code:
  assumes "shared_step t s s'"
  obtains i rest "is" where "code s t = i # rest" "code s' = (code s)(t := is @ rest)"
    "\<forall>j \<in> set is. (j, i) \<in> instr_less"
  using assms
proof (cases rule: shared_step.cases)
  case (event e rest L)
  with that [of "Event e" rest "[]"] show ?thesis by simp
next
  case (body f rest d b)
  with that [of "Body (Step f)" rest "[Body b]"] show ?thesis
    by (simp add: instr_less_def) (metis snd_conv)
next
  case (return r rest)
  with that [of "Body (Return r)" rest "[]"] show ?thesis by simp
qed

lemma instrs_left_step:
  assumes "shared_step t s s'" and "\<forall>u \<ge> N. code s u = []"
  shows "(instrs_left N s', instrs_left N s) \<in> mult1 instr_less \<and> (\<forall>u \<ge> N. code s' u = [])"
proof -
  obtain i rest "is" where c: "code s t = i # rest" "code s' = (code s)(t := is @ rest)"
    and less: "\<forall>j \<in> set is. (j, i) \<in> instr_less"
    using assms(1) by (rule shared_step_code)
  with assms(2) have "t < N" by (metis list.distinct(1) not_le)
  let ?M = "mset rest + (\<Sum>u \<in> {..<N} - {t}. mset (code s u))"
  have "instrs_left N s = add_mset i ?M" "instrs_left N s' = ?M + mset is"
    unfolding instrs_left_def using \<open>t < N\<close> c
    by (simp_all add: sum.remove [of "{..<N}" t])
  moreover have "\<forall>u \<ge> N. code s' u = []" using assms(2) c \<open>t < N\<close> by auto
  ultimately show ?thesis using less
    by (simp add: mult1_def) (intro exI [of _ i] exI [of _ ?M] conjI exI [of _ "mset is"]; simp)
qed

text \<open>No schedule of finitely many threads is infinite.\<close>

lemma shared_step_wf:
  assumes "\<forall>u \<ge> N. ps u = []"
  shows "wf {(s', s). shared_reachable ps d s \<and> (\<exists>t. shared_step t s s')}"
proof (rule wf_subset)
  show "wf (inv_image (mult1 instr_less) (instrs_left N :: ('a, 'b) shared \<Rightarrow> _))"
    by (rule wf_inv_image, rule wf_mult1, rule wf_instr_less)
  have "\<forall>u \<ge> N. code s u = []" if "shared_reachable ps d s" for s
    using that
  proof (induction rule: shared_reachable.induct)
    case start
    show ?case using assms by (simp add: shared_init_def)
  qed (use instrs_left_step in blast)
  then show "{(s', s). shared_reachable ps d s \<and> (\<exists>t. shared_step t s s')}
      \<subseteq> inv_image (mult1 instr_less) (instrs_left N)"
    using instrs_left_step by (fastforce simp: inv_image_def)
qed

end
