(* ===== verification/Storage.thy ===== *)
theory Storage
  imports Cxx_String Unordered_Map Locks
begin

text \<open>
  \<open>Storage\<close> (\<open>include/storage.h\<close>, \<open>src/storage.cpp\<close>): four keyspaces (strings, hashes,
  lists, sets), each guarded by its own \<open>std::shared_mutex\<close>, with lazily removed expiry.

  The state \<open>world\<close> holds the four maps, the steady clock, and the lock events made so
  far. Each operation is written with its lock calls in the source's order; the data it
  leaves and the result it returns are those of an execution in which every lock call
  returns, and the events say which calls those were (theory \<open>Storage_Locking\<close> judges
  them). Time is in nanoseconds since the epoch of \<open>steady_clock\<close>: the clock is the
  sequence of values its readings give.
\<close>

section \<open>Data\<close>

text \<open>
  \<open>DataItem\<close>, \<open>HashItem\<close>, \<open>ListItem\<close> and \<open>SetItem\<close> have the same two expiry fields and
  differ in the type of their contents (\<open>value\<close>, \<open>fields\<close>, \<open>values\<close>, \<open>members\<close>).
\<close>

record 'v item =
  contents :: 'v
  has_expiry :: bool
  expiry :: int

type_synonym DataItem = "string item"
type_synonym HashItem = "(string, string) umap item"
type_synonym ListItem = "string list item"
type_synonym SetItem = "(string, bool) umap item"

text \<open>A freshly constructed item: no expiry, a time point at the epoch.\<close>

definition new_item :: "'v \<Rightarrow> 'v item" where
  "new_item v = \<lparr>contents = v, has_expiry = False, expiry = 0\<rparr>"

record world =
  string_data :: "(string, DataItem) umap"
  hash_data :: "(string, HashItem) umap"
  list_data :: "(string, ListItem) umap"
  set_data :: "(string, SetItem) umap"
  clock :: "nat \<Rightarrow> int"
  reads :: nat
  iter_order :: "string list \<Rightarrow> string list"
  trace :: "event list"

text \<open>\<open>Storage::Storage()\<close> under a clock and an iteration order.\<close>

definition storage_init :: "(nat \<Rightarrow> int) \<Rightarrow> (string list \<Rightarrow> string list) \<Rightarrow> world" where
  "storage_init clk ord =
     \<lparr>string_data = umap_empty, hash_data = umap_empty, list_data = umap_empty,
      set_data = umap_empty, clock = clk, reads = 0, iter_order = ord, trace = []\<rparr>"

text \<open>The accessors for persistence and testing: references to the maps, no lock.\<close>

abbreviation get_string_data :: "world \<Rightarrow> (string, DataItem) umap" where
  "get_string_data \<equiv> string_data"
abbreviation get_hash_data :: "world \<Rightarrow> (string, HashItem) umap" where
  "get_hash_data \<equiv> hash_data"
abbreviation get_list_data :: "world \<Rightarrow> (string, ListItem) umap" where
  "get_list_data \<equiv> list_data"
abbreviation get_set_data :: "world \<Rightarrow> (string, SetItem) umap" where
  "get_set_data \<equiv> set_data"

section \<open>Primitive actions\<close>

type_synonym 'a act = "(world, 'a) state"

definition emit :: "event \<Rightarrow> unit act" where
  "emit e = State_Monad.update (\<lambda>w. w\<lparr>trace := trace w @ [e]\<rparr>)"

definition query :: "(world \<Rightarrow> 'a) \<Rightarrow> 'a act" where
  "query f = State (\<lambda>w. (f w, w))"

text \<open>\<open>std::chrono::steady_clock::now()\<close>.\<close>

definition now :: "int act" where
  "now = State (\<lambda>w. (clock w (reads w), w\<lparr>reads := Suc (reads w)\<rparr>))"

text \<open>\<open>long long\<close> arithmetic: the wrapped result, and an event where it overflows.\<close>

definition long_result :: "int \<Rightarrow> int act" where
  "long_result n = do {
     (if fits64 n then State_Monad.return () else emit Signed_overflow);
     State_Monad.return (wrap64 n)
   }"

lemma run_emit [simp, exec_simps]: "run_state (emit e) w = ((), w\<lparr>trace := trace w @ [e]\<rparr>)"
  by (simp add: emit_def)

lemma run_query [simp, exec_simps]: "run_state (query f) w = (f w, w)"
  by (simp add: query_def)

lemma run_now [simp, exec_simps]:
  "run_state now w = (clock w (reads w), w\<lparr>reads := Suc (reads w)\<rparr>)"
  by (simp add: now_def)

definition overflow_events :: "int \<Rightarrow> event list" where
  "overflow_events n = (if fits64 n then [] else [Signed_overflow])"

lemma run_long_result [simp, exec_simps]:
  "run_state (long_result n) w = (wrap64 n, w\<lparr>trace := trace w @ overflow_events n\<rparr>)"
  by (simp add: long_result_def overflow_events_def)

section \<open>Expiry\<close>

definition is_expired :: "int \<Rightarrow> bool act" where
  "is_expired e = (if 0 < e then do { t \<leftarrow> now; State_Monad.return (e < t) }
     else State_Monad.return False)"

text \<open>
  One of the four blocks of \<open>remove_expired\<close>: a shared lock on the keyspace's mutex, and
  when the item has expired an \<open>unlock()\<close>, a unique lock and the erase. The guards release
  in reverse order at the end of the block.
\<close>

definition remove_expired_block ::
  "mutex \<Rightarrow> (world \<Rightarrow> (string, 'v item) umap) \<Rightarrow>
   (((string, 'v item) umap \<Rightarrow> (string, 'v item) umap) \<Rightarrow> world \<Rightarrow> world) \<Rightarrow> string \<Rightarrow> unit act" where
  "remove_expired_block m sel upd key = do {
     emit (Lock_shared m);
     it \<leftarrow> query (\<lambda>w. umap_find key (sel w));
     (case it of
        None \<Rightarrow> State_Monad.return ()
      | Some item \<Rightarrow>
          if has_expiry item then do {
            b \<leftarrow> is_expired (expiry item);
            if b then do {
              emit (Unlock m);
              emit (Lock m);
              State_Monad.update (upd (umap_erase key));
              emit (Unlock m)
            } else State_Monad.return ()
          } else State_Monad.return ());
     emit (Unlock_shared m)
   }"

definition remove_expired :: "string \<Rightarrow> unit act" where
  "remove_expired key = do {
     remove_expired_block String_mutex string_data string_data_update key;
     remove_expired_block Hash_mutex hash_data hash_data_update key;
     remove_expired_block List_mutex list_data list_data_update key;
     remove_expired_block Set_mutex set_data set_data_update key
   }"

section \<open>String operations\<close>

definition storage_set :: "string \<Rightarrow> string \<Rightarrow> bool act" where
  "storage_set key value = do {
     emit (Lock String_mutex);
     remove_expired key;
     State_Monad.update (string_data_update (umap_put key (new_item value)));
     emit (Unlock String_mutex);
     State_Monad.return True
   }"

text \<open>\<open>get\<close> returns false and leaves its output parameter alone, or returns true and sets it.\<close>

definition storage_get :: "string \<Rightarrow> string option act" where
  "storage_get key = do {
     emit (Lock_shared String_mutex);
     remove_expired key;
     it \<leftarrow> query (\<lambda>w. umap_find key (string_data w));
     emit (Unlock_shared String_mutex);
     State_Monad.return (map_option contents it)
   }"

definition storage_ping :: "bool act" where
  "storage_ping = State_Monad.return True"

definition put_string :: "string \<Rightarrow> DataItem \<Rightarrow> unit act" where
  "put_string key item = State_Monad.update (string_data_update (umap_put key item))"

definition storage_incr :: "string \<Rightarrow> int act" where
  "storage_incr key = do {
     emit (Lock String_mutex);
     remove_expired key;
     it \<leftarrow> query (\<lambda>w. umap_find key (string_data w));
     r \<leftarrow> (case it of
       Some item \<Rightarrow>
         (case stoll (contents item) of
            Inr n \<Rightarrow> do {
              value \<leftarrow> long_result (n + 1);
              put_string key (item\<lparr>contents := to_string value\<rparr>);
              State_Monad.return value
            }
          | Inl _ \<Rightarrow> do {
              put_string key (new_item ''1'');
              State_Monad.return 1
            })
     | None \<Rightarrow> do {
         put_string key (new_item ''1'');
         State_Monad.return 1
       });
     emit (Unlock String_mutex);
     State_Monad.return r
   }"

definition storage_decr :: "string \<Rightarrow> int act" where
  "storage_decr key = do {
     emit (Lock String_mutex);
     remove_expired key;
     it \<leftarrow> query (\<lambda>w. umap_find key (string_data w));
     r \<leftarrow> (case it of
       Some item \<Rightarrow>
         (case stoll (contents item) of
            Inr n \<Rightarrow> do {
              value \<leftarrow> long_result (n - 1);
              put_string key (item\<lparr>contents := to_string value\<rparr>);
              State_Monad.return value
            }
          | Inl _ \<Rightarrow> do {
              put_string key (new_item ''-1'');
              State_Monad.return (- 1)
            })
     | None \<Rightarrow> do {
         put_string key (new_item ''-1'');
         State_Monad.return (- 1)
       });
     emit (Unlock String_mutex);
     State_Monad.return r
   }"

definition storage_incrby :: "string \<Rightarrow> int \<Rightarrow> int act" where
  "storage_incrby key increment = do {
     emit (Lock String_mutex);
     remove_expired key;
     it \<leftarrow> query (\<lambda>w. umap_find key (string_data w));
     r \<leftarrow> (case it of
       Some item \<Rightarrow>
         (case stoll (contents item) of
            Inr n \<Rightarrow> do {
              value \<leftarrow> long_result (n + increment);
              put_string key (item\<lparr>contents := to_string value\<rparr>);
              State_Monad.return value
            }
          | Inl _ \<Rightarrow> do {
              put_string key (new_item (to_string increment));
              State_Monad.return increment
            })
     | None \<Rightarrow> do {
         put_string key (new_item (to_string increment));
         State_Monad.return increment
       });
     emit (Unlock String_mutex);
     State_Monad.return r
   }"

section \<open>Hash operations\<close>

definition storage_hset :: "string \<Rightarrow> string \<Rightarrow> string \<Rightarrow> bool act" where
  "storage_hset key field value = do {
     emit (Lock Hash_mutex);
     remove_expired key;
     it \<leftarrow> query (\<lambda>w. umap_find key (hash_data w));
     (case it of
        Some item \<Rightarrow> State_Monad.update (hash_data_update
          (umap_put key (item\<lparr>contents := umap_put field value (contents item)\<rparr>)))
      | None \<Rightarrow> State_Monad.update (hash_data_update
          (umap_put key (new_item (umap_put field value umap_empty)))));
     emit (Unlock Hash_mutex);
     State_Monad.return True
   }"

definition storage_hget :: "string \<Rightarrow> string \<Rightarrow> string option act" where
  "storage_hget key field = do {
     emit (Lock_shared Hash_mutex);
     remove_expired key;
     it \<leftarrow> query (\<lambda>w. umap_find key (hash_data w));
     emit (Unlock_shared Hash_mutex);
     State_Monad.return (case it of Some item \<Rightarrow> umap_find field (contents item) | None \<Rightarrow> None)
   }"

definition storage_hgetall :: "string \<Rightarrow> (string, string) umap act" where
  "storage_hgetall key = do {
     emit (Lock_shared Hash_mutex);
     remove_expired key;
     it \<leftarrow> query (\<lambda>w. umap_find key (hash_data w));
     emit (Unlock_shared Hash_mutex);
     State_Monad.return (case it of Some item \<Rightarrow> contents item | None \<Rightarrow> umap_empty)
   }"

section \<open>List operations\<close>

definition storage_lpush :: "string \<Rightarrow> string list \<Rightarrow> int act" where
  "storage_lpush key vals = do {
     emit (Lock List_mutex);
     remove_expired key;
     it \<leftarrow> query (\<lambda>w. umap_find key (list_data w));
     r \<leftarrow> (case it of
       Some item \<Rightarrow> do {
         State_Monad.update (list_data_update
           (umap_put key (item\<lparr>contents := vals @ contents item\<rparr>)));
         State_Monad.return (int (length (vals @ contents item)))
       }
     | None \<Rightarrow> do {
         State_Monad.update (list_data_update (umap_put key (new_item vals)));
         State_Monad.return (int (length vals))
       });
     emit (Unlock List_mutex);
     State_Monad.return r
   }"

definition storage_rpop :: "string \<Rightarrow> string option act" where
  "storage_rpop key = do {
     emit (Lock List_mutex);
     remove_expired key;
     it \<leftarrow> query (\<lambda>w. umap_find key (list_data w));
     r \<leftarrow> (case it of
       Some item \<Rightarrow>
         if contents item \<noteq> [] then do {
           State_Monad.update (list_data_update
             (umap_put key (item\<lparr>contents := butlast (contents item)\<rparr>)));
           State_Monad.return (Some (last (contents item)))
         } else State_Monad.return None
     | None \<Rightarrow> State_Monad.return None);
     emit (Unlock List_mutex);
     State_Monad.return r
   }"

text \<open>
  The index arithmetic of \<open>lrange\<close>: negative indices count from the end, both indices are
  clamped to the valid ones, and the range is \<open>[start, end]\<close>.
\<close>

definition lrange_values :: "'a list \<Rightarrow> int \<Rightarrow> int \<Rightarrow> 'a list" where
  "lrange_values vals start stop =
     (if vals = [] then []
      else
        let size = int (length vals);
            start = (if start < 0 then size + start else start);
            stop = (if stop < 0 then size + stop else stop);
            start = max 0 (min start (size - 1));
            stop = max 0 (min stop (size - 1))
        in if stop < start then []
           else take (nat (stop + 1) - nat start) (drop (nat start) vals))"

definition storage_lrange :: "string \<Rightarrow> int \<Rightarrow> int \<Rightarrow> string list act" where
  "storage_lrange key start stop = do {
     emit (Lock_shared List_mutex);
     remove_expired key;
     it \<leftarrow> query (\<lambda>w. umap_find key (list_data w));
     emit (Unlock_shared List_mutex);
     State_Monad.return
       (case it of Some item \<Rightarrow> lrange_values (contents item) start stop | None \<Rightarrow> [])
   }"

section \<open>Set operations\<close>

text \<open>The two loops of \<open>sadd\<close>: into an existing set, and into a new one.\<close>

primrec sadd_existing ::
  "string list \<Rightarrow> (string, bool) umap \<Rightarrow> int \<Rightarrow> (string, bool) umap \<times> int" where
  "sadd_existing [] s added = (s, added)"
| "sadd_existing (member # ms) s added =
     (if umap_find member s = None then sadd_existing ms (umap_put member True s) (added + 1)
      else sadd_existing ms s added)"

primrec sadd_new ::
  "string list \<Rightarrow> (string, bool) umap \<Rightarrow> int \<Rightarrow> (string, bool) umap \<times> int" where
  "sadd_new [] s added = (s, added)"
| "sadd_new (member # ms) s added = sadd_new ms (umap_put member True s) (added + 1)"

definition storage_sadd :: "string \<Rightarrow> string list \<Rightarrow> int act" where
  "storage_sadd key members = do {
     emit (Lock Set_mutex);
     remove_expired key;
     it \<leftarrow> query (\<lambda>w. umap_find key (set_data w));
     r \<leftarrow> (case it of
       Some item \<Rightarrow> do {
         let (s, added) = sadd_existing members (contents item) 0;
         State_Monad.update (set_data_update (umap_put key (item\<lparr>contents := s\<rparr>)));
         State_Monad.return added
       }
     | None \<Rightarrow> do {
         let (s, added) = sadd_new members umap_empty 0;
         State_Monad.update (set_data_update (umap_put key (new_item s)));
         State_Monad.return added
       });
     emit (Unlock Set_mutex);
     State_Monad.return r
   }"

primrec srem_loop ::
  "string list \<Rightarrow> (string, bool) umap \<Rightarrow> int \<Rightarrow> (string, bool) umap \<times> int" where
  "srem_loop [] s removed = (s, removed)"
| "srem_loop (member # ms) s removed =
     srem_loop ms (umap_erase member s)
       (if umap_find member s = None then removed else removed + 1)"

definition storage_srem :: "string \<Rightarrow> string list \<Rightarrow> int act" where
  "storage_srem key members = do {
     emit (Lock Set_mutex);
     remove_expired key;
     it \<leftarrow> query (\<lambda>w. umap_find key (set_data w));
     r \<leftarrow> (case it of
       Some item \<Rightarrow> do {
         let (s, removed) = srem_loop members (contents item) 0;
         (if s = umap_empty then State_Monad.update (set_data_update (umap_erase key))
          else State_Monad.update (set_data_update (umap_put key (item\<lparr>contents := s\<rparr>))));
         State_Monad.return removed
       }
     | None \<Rightarrow> State_Monad.return 0);
     emit (Unlock Set_mutex);
     State_Monad.return r
   }"

definition storage_sismember :: "string \<Rightarrow> string \<Rightarrow> bool act" where
  "storage_sismember key member = do {
     emit (Lock_shared Set_mutex);
     remove_expired key;
     it \<leftarrow> query (\<lambda>w. umap_find key (set_data w));
     emit (Unlock_shared Set_mutex);
     State_Monad.return
       (case it of Some item \<Rightarrow> umap_find member (contents item) \<noteq> None | None \<Rightarrow> False)
   }"

definition storage_smembers :: "string \<Rightarrow> (string, bool) umap act" where
  "storage_smembers key = do {
     emit (Lock_shared Set_mutex);
     remove_expired key;
     it \<leftarrow> query (\<lambda>w. umap_find key (set_data w));
     emit (Unlock_shared Set_mutex);
     State_Monad.return (case it of Some item \<Rightarrow> contents item | None \<Rightarrow> umap_empty)
   }"

definition storage_scard :: "string \<Rightarrow> int act" where
  "storage_scard key = do {
     emit (Lock_shared Set_mutex);
     remove_expired key;
     it \<leftarrow> query (\<lambda>w. umap_find key (set_data w));
     emit (Unlock_shared Set_mutex);
     State_Monad.return
       (case it of Some item \<Rightarrow> int (umap_size (contents item)) | None \<Rightarrow> 0)
   }"

section \<open>Expiration\<close>

text \<open>
  \<open>now() + std::chrono::seconds(seconds)\<close>: both the conversion to nanoseconds and the sum
  can overflow.
\<close>

definition nanos_per_second :: int where
  "nanos_per_second = 1000000000"

definition expire_block ::
  "mutex \<Rightarrow> (world \<Rightarrow> (string, 'v item) umap) \<Rightarrow>
   (((string, 'v item) umap \<Rightarrow> (string, 'v item) umap) \<Rightarrow> world \<Rightarrow> world) \<Rightarrow>
   string \<Rightarrow> int \<Rightarrow> bool act" where
  "expire_block m sel upd key expiry_time = do {
     emit (Lock m);
     it \<leftarrow> query (\<lambda>w. umap_find key (sel w));
     r \<leftarrow> (case it of
       Some item \<Rightarrow> do {
         State_Monad.update (upd (umap_put key (item\<lparr>has_expiry := True, expiry := expiry_time\<rparr>)));
         State_Monad.return True
       }
     | None \<Rightarrow> State_Monad.return False);
     emit (Unlock m);
     State_Monad.return r
   }"

definition storage_expire :: "string \<Rightarrow> int \<Rightarrow> bool act" where
  "storage_expire key seconds = do {
     t \<leftarrow> now;
     nanos \<leftarrow> long_result (seconds * nanos_per_second);
     expiry_time \<leftarrow> long_result (t + nanos);
     done_string \<leftarrow> expire_block String_mutex string_data string_data_update key expiry_time;
     (if done_string then State_Monad.return True else do {
        done_hash \<leftarrow> expire_block Hash_mutex hash_data hash_data_update key expiry_time;
        if done_hash then State_Monad.return True else do {
          done_list \<leftarrow> expire_block List_mutex list_data list_data_update key expiry_time;
          if done_list then State_Monad.return True
          else expire_block Set_mutex set_data set_data_update key expiry_time
        }
      })
   }"

text \<open>\<open>None\<close>: the key is not in this keyspace and the next one is tried.\<close>

definition ttl_block ::
  "mutex \<Rightarrow> (world \<Rightarrow> (string, 'v item) umap) \<Rightarrow>
   (((string, 'v item) umap \<Rightarrow> (string, 'v item) umap) \<Rightarrow> world \<Rightarrow> world) \<Rightarrow>
   string \<Rightarrow> int \<Rightarrow> int option act" where
  "ttl_block m sel upd key t = do {
     emit (Lock_shared m);
     it \<leftarrow> query (\<lambda>w. umap_find key (sel w));
     r \<leftarrow> (case it of
       None \<Rightarrow> State_Monad.return None
     | Some item \<Rightarrow>
         if \<not> has_expiry item then State_Monad.return (Some (- 1))
         else do {
           b \<leftarrow> is_expired (expiry item);
           if b then do {
             emit (Unlock m);
             emit (Lock m);
             State_Monad.update (upd (umap_erase key));
             emit (Unlock m);
             State_Monad.return (Some (- 2))
           } else do {
             d \<leftarrow> long_result (expiry item - t);
             State_Monad.return (Some (whole_units d nanos_per_second))
           }
         });
     emit (Unlock_shared m);
     State_Monad.return r
   }"

definition storage_ttl :: "string \<Rightarrow> int act" where
  "storage_ttl key = do {
     t \<leftarrow> now;
     r1 \<leftarrow> ttl_block String_mutex string_data string_data_update key t;
     (case r1 of Some n \<Rightarrow> State_Monad.return n | None \<Rightarrow> do {
        r2 \<leftarrow> ttl_block Hash_mutex hash_data hash_data_update key t;
        (case r2 of Some n \<Rightarrow> State_Monad.return n | None \<Rightarrow> do {
           r3 \<leftarrow> ttl_block List_mutex list_data list_data_update key t;
           (case r3 of Some n \<Rightarrow> State_Monad.return n | None \<Rightarrow> do {
              r4 \<leftarrow> ttl_block Set_mutex set_data set_data_update key t;
              State_Monad.return (case r4 of Some n \<Rightarrow> n | None \<Rightarrow> - 2)
            })
         })
      })
   }"

end
