(* ===== verification/Storage_Exec.thy ===== *)
theory Storage_Exec
  imports Storage
begin

text \<open>
  Running the storage operations: closed forms for their result, the state they leave and
  the lock events they append. The four keyspaces obey one contract, the locale
  \<open>keyspace\<close> (a field of the state with its update, and a mutex), so the blocks that the
  source repeats four times are executed once, inside it.
\<close>

section \<open>What a sweep does to one map\<close>

text \<open>The test of \<open>is_expired\<close> at a clock reading \<open>t\<close>, with the guard \<open>has_expiry\<close>.\<close>

definition expired_at :: "int \<Rightarrow> 'v item \<Rightarrow> bool" where
  "expired_at t item \<longleftrightarrow> has_expiry item \<and> 0 < expiry item \<and> expiry item < t"

definition purge :: "int \<Rightarrow> string \<Rightarrow> (string, 'v item) umap \<Rightarrow> (string, 'v item) umap" where
  "purge t key m = (case umap_find key m of
     Some item \<Rightarrow> if expired_at t item then umap_erase key m else m | None \<Rightarrow> m)"

text \<open>How often the clock is read: only for an item with an expiry after the epoch.\<close>

definition looks :: "string \<Rightarrow> (string, 'v item) umap \<Rightarrow> nat" where
  "looks key m = (case umap_find key m of
     Some item \<Rightarrow> if has_expiry item \<and> 0 < expiry item then 1 else 0 | None \<Rightarrow> 0)"

definition sweep_events :: "mutex \<Rightarrow> int \<Rightarrow> string \<Rightarrow> (string, 'v item) umap \<Rightarrow> event list" where
  "sweep_events m t key d =
     [Lock_shared m] @
     (case umap_find key d of
        Some item \<Rightarrow> if expired_at t item then [Unlock m, Lock m, Unlock m] else []
      | None \<Rightarrow> []) @
     [Unlock_shared m]"

definition set_expiry :: "string \<Rightarrow> int \<Rightarrow> (string, 'v item) umap \<Rightarrow> (string, 'v item) umap" where
  "set_expiry key e m = (case umap_find key m of
     Some item \<Rightarrow> umap_put key (item\<lparr>has_expiry := True, expiry := e\<rparr>) m | None \<Rightarrow> m)"

text \<open>\<open>ttl\<close> on one map, with \<open>t\<close> read on entry and \<open>t'\<close> by \<open>is_expired\<close>.\<close>

definition ttl_result :: "int \<Rightarrow> int \<Rightarrow> string \<Rightarrow> (string, 'v item) umap \<Rightarrow> int option" where
  "ttl_result t t' key m = (case umap_find key m of
     None \<Rightarrow> None
   | Some item \<Rightarrow>
       if \<not> has_expiry item then Some (- 1)
       else if expired_at t' item then Some (- 2)
       else Some (whole_units (wrap64 (expiry item - t)) nanos_per_second))"

definition ttl_events :: "mutex \<Rightarrow> int \<Rightarrow> int \<Rightarrow> string \<Rightarrow> (string, 'v item) umap \<Rightarrow> event list" where
  "ttl_events m t t' key d =
     [Lock_shared m] @
     (case umap_find key d of
        Some item \<Rightarrow>
          if \<not> has_expiry item then []
          else if expired_at t' item then [Unlock m, Lock m, Unlock m]
          else overflow_events (expiry item - t)
      | None \<Rightarrow> []) @
     [Unlock_shared m]"

section \<open>The contract of a keyspace\<close>

locale keyspace =
  fixes sel :: "world \<Rightarrow> (string, 'v item) umap"
    and upd :: "((string, 'v item) umap \<Rightarrow> (string, 'v item) umap) \<Rightarrow> world \<Rightarrow> world"
    and mtx :: mutex
  assumes sel_upd: "sel (upd f w) = f (sel w)"
    and upd_cong: "f (sel w) = g (sel w) \<Longrightarrow> upd f w = upd g w"
    and upd_same: "upd (\<lambda>m. m) w = w"
    and upd_reads: "upd f (w\<lparr>reads := r\<rparr>) = (upd f w)\<lparr>reads := r\<rparr>"
    and upd_trace: "upd f (w\<lparr>trace := es\<rparr>) = (upd f w)\<lparr>trace := es\<rparr>"
    and sel_reads: "sel (w\<lparr>reads := r\<rparr>) = sel w"
    and sel_trace: "sel (w\<lparr>trace := es\<rparr>) = sel w"
    and reads_upd: "reads (upd f w) = reads w"
    and trace_upd: "trace (upd f w) = trace w"
begin

lemmas lens = sel_upd upd_reads upd_trace sel_reads sel_trace reads_upd trace_upd

lemma upd_idle: "f (sel w) = sel w \<Longrightarrow> upd f w = w"
  using upd_cong [of f w "\<lambda>m. m"] by (simp add: upd_same)

lemma world_same: "w\<lparr>reads := reads w, trace := es\<rparr> = w\<lparr>trace := es\<rparr>"
  by simp

lemma run_remove_expired_block:
  "run_state (remove_expired_block mtx sel upd key) w =
     ((), (upd (purge (clock w (reads w)) key) w)
       \<lparr>reads := reads w + looks key (sel w),
        trace := trace w @ sweep_events mtx (clock w (reads w)) key (sel w)\<rparr>)"
proof (cases "umap_find key (sel w)")
  case None
  then have "upd (purge (clock w (reads w)) key) w = w" by (intro upd_idle) (simp add: purge_def)
  with None show ?thesis
    by (simp add: remove_expired_block_def lens looks_def sweep_events_def)
next
  case (Some item)
  show ?thesis
  proof (cases "expired_at (clock w (reads w)) item")
    case True
    with Some have "upd (purge (clock w (reads w)) key) w = upd (umap_erase key) w"
      by (intro upd_cong) (simp add: purge_def)
    with Some True show ?thesis
      by (simp add: remove_expired_block_def is_expired_def expired_at_def lens looks_def
          sweep_events_def)
  next
    case False
    with Some have "upd (purge (clock w (reads w)) key) w = w"
      by (intro upd_idle) (simp add: purge_def)
    with Some False show ?thesis
      by (auto simp: remove_expired_block_def is_expired_def expired_at_def lens looks_def
          sweep_events_def)
  qed
qed

lemma run_expire_block:
  "run_state (expire_block mtx sel upd key e) w =
     (umap_find key (sel w) \<noteq> None,
      (upd (set_expiry key e) w)\<lparr>trace := trace w @ [Lock mtx, Unlock mtx]\<rparr>)"
proof (cases "umap_find key (sel w)")
  case None
  then have "upd (set_expiry key e) w = w" by (intro upd_idle) (simp add: set_expiry_def)
  with None show ?thesis by (simp add: expire_block_def lens)
next
  case (Some item)
  then have "upd (set_expiry key e) w = upd (umap_put key (item\<lparr>has_expiry := True, expiry := e\<rparr>)) w"
    by (intro upd_cong) (simp add: set_expiry_def)
  with Some show ?thesis by (simp add: expire_block_def lens)
qed

lemma run_ttl_block:
  "run_state (ttl_block mtx sel upd key t) w =
     (ttl_result t (clock w (reads w)) key (sel w),
      (upd (purge (clock w (reads w)) key) w)
       \<lparr>reads := reads w + looks key (sel w),
        trace := trace w @ ttl_events mtx t (clock w (reads w)) key (sel w)\<rparr>)"
proof (cases "umap_find key (sel w)")
  case None
  then have "upd (purge (clock w (reads w)) key) w = w" by (intro upd_idle) (simp add: purge_def)
  with None show ?thesis
    by (simp add: ttl_block_def lens looks_def ttl_events_def ttl_result_def)
next
  case (Some item)
  show ?thesis
  proof (cases "expired_at (clock w (reads w)) item")
    case True
    with Some have "upd (purge (clock w (reads w)) key) w = upd (umap_erase key) w"
      by (intro upd_cong) (simp add: purge_def)
    with Some True show ?thesis
      by (simp add: ttl_block_def is_expired_def expired_at_def lens looks_def
          ttl_events_def ttl_result_def)
  next
    case False
    with Some have "upd (purge (clock w (reads w)) key) w = w"
      by (intro upd_idle) (simp add: purge_def)
    with Some False show ?thesis
      by (auto simp: ttl_block_def is_expired_def expired_at_def lens looks_def
          ttl_events_def ttl_result_def)
  qed
qed

end

lemma world_update_cong:
  "f1 (string_data w) = g1 (string_data w) \<Longrightarrow> string_data_update f1 w = string_data_update g1 w"
  "f2 (hash_data w) = g2 (hash_data w) \<Longrightarrow> hash_data_update f2 w = hash_data_update g2 w"
  "f3 (list_data w) = g3 (list_data w) \<Longrightarrow> list_data_update f3 w = list_data_update g3 w"
  "f4 (set_data w) = g4 (set_data w) \<Longrightarrow> set_data_update f4 w = set_data_update g4 w"
  by (cases w; simp)+

lemma world_update_same:
  "string_data_update (\<lambda>m. m) w = w" "hash_data_update (\<lambda>m. m) w = w"
  "list_data_update (\<lambda>m. m) w = w" "set_data_update (\<lambda>m. m) w = w"
  by (cases w; simp)+

interpretation strings: keyspace string_data string_data_update String_mutex
  by unfold_locales (assumption | rule world_update_same | rule world_update_cong | simp)+

interpretation hashes: keyspace hash_data hash_data_update Hash_mutex
  by unfold_locales (assumption | rule world_update_same | rule world_update_cong | simp)+

interpretation lists: keyspace list_data list_data_update List_mutex
  by unfold_locales (assumption | rule world_update_same | rule world_update_cong | simp)+

interpretation sets: keyspace set_data set_data_update Set_mutex
  by unfold_locales (assumption | rule world_update_same | rule world_update_cong | simp)+

section \<open>\<open>remove_expired\<close>\<close>

text \<open>The readings of the clock with which the four maps are swept, one after the other.\<close>

definition string_time :: "string \<Rightarrow> world \<Rightarrow> int" where
  "string_time key w = clock w (reads w)"

definition hash_time :: "string \<Rightarrow> world \<Rightarrow> int" where
  "hash_time key w = clock w (reads w + looks key (string_data w))"

definition list_time :: "string \<Rightarrow> world \<Rightarrow> int" where
  "list_time key w = clock w (reads w + looks key (string_data w) + looks key (hash_data w))"

definition set_time :: "string \<Rightarrow> world \<Rightarrow> int" where
  "set_time key w = clock w
     (reads w + looks key (string_data w) + looks key (hash_data w) + looks key (list_data w))"

definition all_looks :: "string \<Rightarrow> world \<Rightarrow> nat" where
  "all_looks key w = looks key (string_data w) + looks key (hash_data w)
     + looks key (list_data w) + looks key (set_data w)"

definition sweep_trace :: "string \<Rightarrow> world \<Rightarrow> event list" where
  "sweep_trace key w =
     sweep_events String_mutex (string_time key w) key (string_data w) @
     sweep_events Hash_mutex (hash_time key w) key (hash_data w) @
     sweep_events List_mutex (list_time key w) key (list_data w) @
     sweep_events Set_mutex (set_time key w) key (set_data w)"

definition swept :: "string \<Rightarrow> world \<Rightarrow> world" where
  "swept key w = w
     \<lparr>string_data := purge (string_time key w) key (string_data w),
      hash_data := purge (hash_time key w) key (hash_data w),
      list_data := purge (list_time key w) key (list_data w),
      set_data := purge (set_time key w) key (set_data w),
      reads := reads w + all_looks key w,
      trace := trace w @ sweep_trace key w\<rparr>"

lemmas time_defs = string_time_def hash_time_def list_time_def set_time_def

lemma run_remove_expired [simp, exec_simps]:
  "run_state (remove_expired key) w = ((), swept key w)"
  by (simp add: remove_expired_def strings.run_remove_expired_block hashes.run_remove_expired_block
      lists.run_remove_expired_block sets.run_remove_expired_block swept_def time_defs
      all_looks_def sweep_trace_def add.assoc)

lemma swept_trace_indep [simp]:
  "string_time key (w\<lparr>trace := es\<rparr>) = string_time key w"
  "hash_time key (w\<lparr>trace := es\<rparr>) = hash_time key w"
  "list_time key (w\<lparr>trace := es\<rparr>) = list_time key w"
  "set_time key (w\<lparr>trace := es\<rparr>) = set_time key w"
  "all_looks key (w\<lparr>trace := es\<rparr>) = all_looks key w"
  "sweep_trace key (w\<lparr>trace := es\<rparr>) = sweep_trace key w"
  by (simp_all add: time_defs all_looks_def sweep_trace_def)

lemma swept_fields [simp]:
  "string_data (swept key w) = purge (string_time key w) key (string_data w)"
  "hash_data (swept key w) = purge (hash_time key w) key (hash_data w)"
  "list_data (swept key w) = purge (list_time key w) key (list_data w)"
  "set_data (swept key w) = purge (set_time key w) key (set_data w)"
  "reads (swept key w) = reads w + all_looks key w"
  "clock (swept key w) = clock w"
  "iter_order (swept key w) = iter_order w"
  "trace (swept key w) = trace w @ sweep_trace key w"
  by (simp_all add: swept_def)

lemma umap_find_purge:
  "umap_find k (purge t key m) =
     (case umap_find k m of
        Some item \<Rightarrow> if k = key \<and> expired_at t item then None else Some item | None \<Rightarrow> None)"
  by (auto simp: purge_def um.find_erase split: option.splits)

lemma umap_wf_purge [simp]: "umap_wf m \<Longrightarrow> umap_wf (purge t key m)"
  by (auto simp: purge_def um.wf_erase split: option.splits)

section \<open>The operations\<close>

text \<open>\<open>after key es w\<close>: the state after the sweep, with the events \<open>es\<close> appended.\<close>

definition after :: "string \<Rightarrow> event list \<Rightarrow> world \<Rightarrow> world" where
  "after key es w = (swept key w)\<lparr>trace := trace w @ es\<rparr>"

lemma after_fields [simp]:
  "string_data (after key es w) = purge (string_time key w) key (string_data w)"
  "hash_data (after key es w) = purge (hash_time key w) key (hash_data w)"
  "list_data (after key es w) = purge (list_time key w) key (list_data w)"
  "set_data (after key es w) = purge (set_time key w) key (set_data w)"
  "reads (after key es w) = reads w + all_looks key w"
  "clock (after key es w) = clock w"
  "iter_order (after key es w) = iter_order w"
  "trace (after key es w) = trace w @ es"
  by (simp_all add: after_def)

lemma swept_trace: "swept key (w\<lparr>trace := es\<rparr>) = (swept key w)\<lparr>trace := es @ sweep_trace key w\<rparr>"
  by (simp add: swept_def)

lemma swept_then:
  "(swept key (w\<lparr>trace := trace w @ [e]\<rparr>))\<lparr>trace := (trace w @ [e]) @ sweep_trace key w @ es\<rparr>
     = after key (e # sweep_trace key w @ es) w"
  by (simp add: swept_trace after_def)

text \<open>The events of an operation that locks \<open>m\<close> exclusively or shared around the sweep.\<close>

definition write_events :: "mutex \<Rightarrow> string \<Rightarrow> event list \<Rightarrow> world \<Rightarrow> event list" where
  "write_events m key mid w = [Lock m] @ sweep_trace key w @ mid @ [Unlock m]"

definition read_events :: "mutex \<Rightarrow> string \<Rightarrow> world \<Rightarrow> event list" where
  "read_events m key w = [Lock_shared m] @ sweep_trace key w @ [Unlock_shared m]"

lemmas run_defs = after_def swept_trace write_events_def read_events_def

lemma run_storage_set [exec_simps]:
  "run_state (storage_set key value) w =
     (True, (after key (write_events String_mutex key [] w) w)
        \<lparr>string_data := umap_put key (new_item value) (purge (string_time key w) key (string_data w))\<rparr>)"
  by (simp add: storage_set_def run_defs)

lemma run_storage_get [exec_simps]:
  "run_state (storage_get key) w =
     (map_option contents (umap_find key (purge (string_time key w) key (string_data w))),
      after key (read_events String_mutex key w) w)"
  by (simp add: storage_get_def run_defs)

text \<open>
  The counters: what \<open>incr\<close>, \<open>decr\<close> and \<open>incrby\<close> share. \<open>counter_item\<close> is the item they
  store and \<open>counter_sum\<close> the sum the source computes before it wraps.
\<close>

definition counter_sum :: "string \<Rightarrow> int \<Rightarrow> (string, DataItem) umap \<Rightarrow> int" where
  "counter_sum key d m = (case umap_find key m of
     Some item \<Rightarrow> (case stoll (contents item) of Inr n \<Rightarrow> n + d | Inl _ \<Rightarrow> d)
   | None \<Rightarrow> d)"

definition counter_item :: "string \<Rightarrow> int \<Rightarrow> (string, DataItem) umap \<Rightarrow> DataItem" where
  "counter_item key d m = (case umap_find key m of
     Some item \<Rightarrow> (case stoll (contents item) of
         Inr n \<Rightarrow> item\<lparr>contents := to_string (wrap64 (n + d))\<rparr>
       | Inl _ \<Rightarrow> new_item (to_string d))
   | None \<Rightarrow> new_item (to_string d))"

definition counter_after :: "string \<Rightarrow> int \<Rightarrow> world \<Rightarrow> int \<times> world" where
  "counter_after key d w =
     (let m = purge (string_time key w) key (string_data w); n = counter_sum key d m in
      (wrap64 n,
       (after key (write_events String_mutex key (overflow_events n) w) w)
         \<lparr>string_data := umap_put key (counter_item key d m) m\<rparr>))"

lemma to_string_one: "to_string 1 = ''1''" "to_string (- 1) = ''-1''"
  by code_simp+

lemma run_storage_incrby [exec_simps]:
  assumes "fits64 d"
  shows "run_state (storage_incrby key d) w = counter_after key d w"
  using assms
  by (auto simp: storage_incrby_def put_string_def counter_after_def counter_sum_def
      counter_item_def overflow_events_def run_defs Let_def split: option.splits sum.splits)

lemma run_storage_incr [exec_simps]:
  "run_state (storage_incr key) w = counter_after key 1 w"
  by (auto simp: storage_incr_def put_string_def counter_after_def counter_sum_def
      counter_item_def overflow_events_def run_defs Let_def to_string_one fits64_def
      split: option.splits sum.splits)

lemma run_storage_decr [exec_simps]:
  "run_state (storage_decr key) w = counter_after key (- 1) w"
  by (auto simp: storage_decr_def put_string_def counter_after_def counter_sum_def
      counter_item_def overflow_events_def run_defs Let_def to_string_one fits64_def
      split: option.splits sum.splits)

text \<open>Hashes, lists and sets: the map of the keyspace once the sweep has passed.\<close>

abbreviation hashes_at :: "string \<Rightarrow> world \<Rightarrow> (string, HashItem) umap" where
  "hashes_at key w \<equiv> purge (hash_time key w) key (hash_data w)"

abbreviation lists_at :: "string \<Rightarrow> world \<Rightarrow> (string, ListItem) umap" where
  "lists_at key w \<equiv> purge (list_time key w) key (list_data w)"

abbreviation sets_at :: "string \<Rightarrow> world \<Rightarrow> (string, SetItem) umap" where
  "sets_at key w \<equiv> purge (set_time key w) key (set_data w)"

definition found :: "'v \<Rightarrow> 'v item option \<Rightarrow> 'v" where
  "found d it = (case it of Some item \<Rightarrow> contents item | None \<Rightarrow> d)"

definition stored :: "'v \<Rightarrow> 'v item option \<Rightarrow> 'v item" where
  "stored v it = (case it of Some item \<Rightarrow> item\<lparr>contents := v\<rparr> | None \<Rightarrow> new_item v)"

lemma contents_new_item [simp]: "contents (new_item v) = v"
  by (simp add: new_item_def)

lemma contents_stored [simp]: "contents (stored v it) = v"
  by (simp add: stored_def new_item_def split: option.splits)

lemma found_simps [simp]: "found d (Some item) = contents item" "found d None = d"
  by (simp_all add: found_def)

lemma stored_simps [simp]: "stored v (Some item) = item\<lparr>contents := v\<rparr>" "stored v None = new_item v"
  by (simp_all add: stored_def)

lemma run_storage_hset [exec_simps]:
  "run_state (storage_hset key field value) w =
     (True, (after key (write_events Hash_mutex key [] w) w)\<lparr>hash_data :=
        umap_put key (stored (umap_put field value (found umap_empty (umap_find key (hashes_at key w))))
          (umap_find key (hashes_at key w))) (hashes_at key w)\<rparr>)"
  by (cases "umap_find key (hashes_at key w)") (simp_all add: storage_hset_def run_defs)

lemma run_storage_hget [exec_simps]:
  "run_state (storage_hget key field) w =
     (umap_find field (found umap_empty (umap_find key (hashes_at key w))),
      after key (read_events Hash_mutex key w) w)"
  by (cases "umap_find key (hashes_at key w)")
    (simp_all add: storage_hget_def run_defs um.find_empty)

lemma run_storage_hgetall [exec_simps]:
  "run_state (storage_hgetall key) w =
     (found umap_empty (umap_find key (hashes_at key w)), after key (read_events Hash_mutex key w) w)"
  by (cases "umap_find key (hashes_at key w)") (simp_all add: storage_hgetall_def run_defs)

lemma run_storage_lpush [exec_simps]:
  "run_state (storage_lpush key vals) w =
     (int (length vals + length (found [] (umap_find key (lists_at key w)))),
      (after key (write_events List_mutex key [] w) w)\<lparr>list_data :=
        umap_put key (stored (vals @ found [] (umap_find key (lists_at key w)))
          (umap_find key (lists_at key w))) (lists_at key w)\<rparr>)"
  by (cases "umap_find key (lists_at key w)") (simp_all add: storage_lpush_def run_defs)

definition popped :: "string \<Rightarrow> (string, ListItem) umap \<Rightarrow> (string, ListItem) umap" where
  "popped key m = (case umap_find key m of
     Some item \<Rightarrow> if contents item \<noteq> [] then umap_put key (item\<lparr>contents := butlast (contents item)\<rparr>) m
       else m
   | None \<Rightarrow> m)"

lemma run_storage_rpop [exec_simps]:
  "run_state (storage_rpop key) w =
     ((let xs = found [] (umap_find key (lists_at key w)) in if xs = [] then None else Some (last xs)),
      (after key (write_events List_mutex key [] w) w)\<lparr>list_data := popped key (lists_at key w)\<rparr>)"
  by (cases "umap_find key (lists_at key w)")
    (auto simp: storage_rpop_def run_defs popped_def)

lemma run_storage_lrange [exec_simps]:
  "run_state (storage_lrange key start stop) w =
     (lrange_values (found [] (umap_find key (lists_at key w))) start stop,
      after key (read_events List_mutex key w) w)"
  by (cases "umap_find key (lists_at key w)")
    (simp_all add: storage_lrange_def run_defs lrange_values_def)

definition sadd_result :: "string \<Rightarrow> string list \<Rightarrow> (string, SetItem) umap \<Rightarrow> (string, bool) umap \<times> int" where
  "sadd_result key members m = (case umap_find key m of
     Some item \<Rightarrow> sadd_existing members (contents item) 0 | None \<Rightarrow> sadd_new members umap_empty 0)"

lemma run_storage_sadd [exec_simps]:
  "run_state (storage_sadd key members) w =
     (snd (sadd_result key members (sets_at key w)),
      (after key (write_events Set_mutex key [] w) w)\<lparr>set_data :=
        umap_put key (stored (fst (sadd_result key members (sets_at key w)))
          (umap_find key (sets_at key w))) (sets_at key w)\<rparr>)"
  by (cases "umap_find key (sets_at key w)")
    (simp_all add: storage_sadd_def run_defs sadd_result_def split_beta Let_def)

definition srem_result :: "string \<Rightarrow> string list \<Rightarrow> (string, SetItem) umap \<Rightarrow> (string, bool) umap \<times> int" where
  "srem_result key members m = srem_loop members (found umap_empty (umap_find key m)) 0"

definition srem_map :: "string \<Rightarrow> (string, bool) umap \<Rightarrow> (string, SetItem) umap \<Rightarrow> (string, SetItem) umap" where
  "srem_map key s m = (case umap_find key m of
     Some item \<Rightarrow> if s = umap_empty then umap_erase key m else umap_put key (item\<lparr>contents := s\<rparr>) m
   | None \<Rightarrow> m)"

lemma srem_loop_empty [simp]: "srem_loop ms umap_empty r = (umap_empty, r)"
proof (induction ms)
  case (Cons a ms)
  have "umap_erase a umap_empty = (umap_empty :: (string, bool) umap)"
    by (simp add: umap_empty_iff um.find_erase um.find_empty)
  with Cons show ?case by (simp add: um.find_empty)
qed simp

lemma run_storage_srem [exec_simps]:
  "run_state (storage_srem key members) w =
     (snd (srem_result key members (sets_at key w)),
      (after key (write_events Set_mutex key [] w) w)\<lparr>set_data :=
        srem_map key (fst (srem_result key members (sets_at key w))) (sets_at key w)\<rparr>)"
  by (cases "umap_find key (sets_at key w)")
    (simp_all add: storage_srem_def run_defs srem_result_def srem_map_def split_beta Let_def)

lemma run_storage_sismember [exec_simps]:
  "run_state (storage_sismember key member) w =
     (umap_find member (found umap_empty (umap_find key (sets_at key w))) \<noteq> None,
      after key (read_events Set_mutex key w) w)"
  by (cases "umap_find key (sets_at key w)")
    (simp_all add: storage_sismember_def run_defs um.find_empty)

lemma run_storage_smembers [exec_simps]:
  "run_state (storage_smembers key) w =
     (found umap_empty (umap_find key (sets_at key w)), after key (read_events Set_mutex key w) w)"
  by (cases "umap_find key (sets_at key w)") (simp_all add: storage_smembers_def run_defs)

lemma run_storage_scard [exec_simps]:
  "run_state (storage_scard key) w =
     (int (umap_size (found umap_empty (umap_find key (sets_at key w)))),
      after key (read_events Set_mutex key w) w)"
  by (cases "umap_find key (sets_at key w)")
    (simp_all add: storage_scard_def run_defs umap_size_def umap_empty_def)

lemma run_storage_ping [exec_simps]: "run_state storage_ping w = (True, w)"
  by (simp add: storage_ping_def)

text \<open>
  \<open>expire\<close> computes its deadline from one reading; \<open>deadline_events\<close> are its overflows.
\<close>

definition deadline :: "int \<Rightarrow> int \<Rightarrow> int" where
  "deadline t seconds = wrap64 (t + wrap64 (seconds * nanos_per_second))"

definition deadline_events :: "int \<Rightarrow> int \<Rightarrow> event list" where
  "deadline_events t seconds =
     overflow_events (seconds * nanos_per_second) @
     overflow_events (t + wrap64 (seconds * nanos_per_second))"

definition started_expire :: "int \<Rightarrow> world \<Rightarrow> world" where
  "started_expire seconds w =
     w\<lparr>reads := Suc (reads w), trace := trace w @ deadline_events (clock w (reads w)) seconds\<rparr>"

definition lock_pair :: "mutex \<Rightarrow> event list" where
  "lock_pair m = [Lock m, Unlock m]"

lemma run_storage_expire [exec_simps]:
  "run_state (storage_expire key seconds) w =
     (let e = deadline (clock w (reads w)) seconds; s = started_expire seconds w in
      if umap_find key (string_data w) \<noteq> None then
        (True, s\<lparr>string_data := set_expiry key e (string_data w),
                 trace := trace s @ lock_pair String_mutex\<rparr>)
      else if umap_find key (hash_data w) \<noteq> None then
        (True, s\<lparr>hash_data := set_expiry key e (hash_data w),
                 trace := trace s @ lock_pair String_mutex @ lock_pair Hash_mutex\<rparr>)
      else if umap_find key (list_data w) \<noteq> None then
        (True, s\<lparr>list_data := set_expiry key e (list_data w),
                 trace := trace s @ lock_pair String_mutex @ lock_pair Hash_mutex @ lock_pair List_mutex\<rparr>)
      else
        (umap_find key (set_data w) \<noteq> None,
         s\<lparr>set_data := set_expiry key e (set_data w),
           trace := trace s @ lock_pair String_mutex @ lock_pair Hash_mutex @ lock_pair List_mutex
             @ lock_pair Set_mutex\<rparr>))"
proof -
  have idle: "set_expiry key e m = m" if "umap_find key m = None" for e and m :: "(string, 'v item) umap"
    using that by (simp add: set_expiry_def)
  show ?thesis
    by (simp add: storage_expire_def strings.run_expire_block hashes.run_expire_block
        lists.run_expire_block sets.run_expire_block Let_def deadline_def deadline_events_def
        started_expire_def lock_pair_def idle strings.upd_idle hashes.upd_idle lists.upd_idle)
qed

text \<open>
  \<open>ttl\<close> reads the clock on entry (\<open>t\<close>) and, in the map that holds the key, once more in
  \<open>is_expired\<close> (\<open>t'\<close>); the maps before it are looked at and released.
\<close>

definition shared_pair :: "mutex \<Rightarrow> event list" where
  "shared_pair m = [Lock_shared m, Unlock_shared m]"

lemma ttl_absent:
  assumes "umap_find key m = None"
  shows "ttl_result t t' key m = None" "ttl_events mtx t t' key m = shared_pair mtx"
    "purge t' key m = m" "looks key m = 0"
  using assms by (simp_all add: ttl_result_def ttl_events_def shared_pair_def purge_def looks_def)

lemma ttl_result_Some: "umap_find key m = Some item \<Longrightarrow> \<exists>n. ttl_result t t' key m = Some n"
  by (simp add: ttl_result_def)

definition ttl_value :: "int \<Rightarrow> int \<Rightarrow> 'v item \<Rightarrow> int" where
  "ttl_value t t' item =
     (if \<not> has_expiry item then - 1 else if expired_at t' item then - 2
      else whole_units (wrap64 (expiry item - t)) nanos_per_second)"

lemma ttl_result_value: "umap_find key m = Some item \<Longrightarrow> ttl_result t t' key m = Some (ttl_value t t' item)"
  by (simp add: ttl_result_def ttl_value_def)

lemma run_storage_ttl [exec_simps]:
  "run_state (storage_ttl key) w =
     (let t = clock w (reads w); t' = clock w (Suc (reads w)) in
      case umap_find key (string_data w) of
        Some item \<Rightarrow> (ttl_value t t' item,
          w\<lparr>string_data := purge t' key (string_data w), reads := Suc (reads w) + looks key (string_data w),
            trace := trace w @ ttl_events String_mutex t t' key (string_data w)\<rparr>)
      | None \<Rightarrow>
      (case umap_find key (hash_data w) of
        Some item \<Rightarrow> (ttl_value t t' item,
          w\<lparr>hash_data := purge t' key (hash_data w), reads := Suc (reads w) + looks key (hash_data w),
            trace := trace w @ shared_pair String_mutex @ ttl_events Hash_mutex t t' key (hash_data w)\<rparr>)
      | None \<Rightarrow>
      (case umap_find key (list_data w) of
        Some item \<Rightarrow> (ttl_value t t' item,
          w\<lparr>list_data := purge t' key (list_data w), reads := Suc (reads w) + looks key (list_data w),
            trace := trace w @ shared_pair String_mutex @ shared_pair Hash_mutex
              @ ttl_events List_mutex t t' key (list_data w)\<rparr>)
      | None \<Rightarrow>
      (case umap_find key (set_data w) of
        Some item \<Rightarrow> (ttl_value t t' item,
          w\<lparr>set_data := purge t' key (set_data w), reads := Suc (reads w) + looks key (set_data w),
            trace := trace w @ shared_pair String_mutex @ shared_pair Hash_mutex @ shared_pair List_mutex
              @ ttl_events Set_mutex t t' key (set_data w)\<rparr>)
      | None \<Rightarrow> (- 2,
          w\<lparr>reads := Suc (reads w),
            trace := trace w @ shared_pair String_mutex @ shared_pair Hash_mutex @ shared_pair List_mutex
              @ shared_pair Set_mutex\<rparr>)))))"
  unfolding storage_ttl_def
  by (cases "umap_find key (string_data w)"; cases "umap_find key (hash_data w)";
      cases "umap_find key (list_data w)"; cases "umap_find key (set_data w)")
    (simp_all add: strings.run_ttl_block hashes.run_ttl_block lists.run_ttl_block
      sets.run_ttl_block Let_def ttl_absent ttl_result_value strings.upd_idle hashes.upd_idle
      lists.upd_idle sets.upd_idle)

end
