(* ===== verification/Storage_Spec.thy ===== *)
theory Storage_Spec
  imports Storage_Exec
begin

text \<open>
  What \<open>Storage\<close> promises its clients. The abstract state at an instant \<open>t\<close> is what is
  \<^emph>\<open>live\<close> then: a partial map per keyspace (\<open>string_view\<close>, \<open>hash_view\<close>, \<open>list_view\<close>,
  \<open>set_view\<close>) in which an item past its expiry does not occur, whether or not the lazy sweep
  has removed it. Each operation is shown to act on the abstract state as its documentation
  says (refinement), to leave every other key alone (isolation), and to keep the
  well-formedness of the maps.
\<close>

section \<open>Live contents\<close>

definition live :: "int \<Rightarrow> (string, 'v item) umap \<Rightarrow> string \<Rightarrow> 'v option" where
  "live t m key = (case umap_find key m of
     Some item \<Rightarrow> if expired_at t item then None else Some (contents item) | None \<Rightarrow> None)"

definition string_view :: "int \<Rightarrow> world \<Rightarrow> string \<Rightarrow> string option" where
  "string_view t w = live t (string_data w)"

definition hash_view :: "int \<Rightarrow> world \<Rightarrow> string \<Rightarrow> (string \<Rightarrow> string option) option" where
  "hash_view t w key = map_option (\<lambda>h field. umap_find field h) (live t (hash_data w) key)"

definition list_view :: "int \<Rightarrow> world \<Rightarrow> string \<Rightarrow> string list option" where
  "list_view t w = live t (list_data w)"

definition set_view :: "int \<Rightarrow> world \<Rightarrow> string \<Rightarrow> string set option" where
  "set_view t w key = map_option (\<lambda>s. set (umap_keys s)) (live t (set_data w) key)"

lemma expired_at_mono: "expired_at s item \<Longrightarrow> s \<le> t \<Longrightarrow> expired_at t item"
  by (auto simp: expired_at_def)

lemma not_expired_new [simp]: "\<not> expired_at t (new_item v)"
  by (simp add: expired_at_def new_item_def)

lemma expired_at_contents [simp]: "expired_at t (item\<lparr>contents := v\<rparr>) = expired_at t item"
  by (simp add: expired_at_def)

lemma live_purge [view_simps]: "s \<le> t \<Longrightarrow> live t (purge s key m) = live t m"
  by (rule ext) (auto simp: live_def umap_find_purge split: option.splits dest: expired_at_mono)

lemma live_put_new [view_simps]: "live t (umap_put key (new_item v) m) = (live t m)(key \<mapsto> v)"
  by (rule ext) (simp add: live_def um.find_put new_item_def expired_at_def)

lemma live_purge_other: "k \<noteq> key \<Longrightarrow> live t (purge s key m) k = live t m k"
  by (simp add: live_def umap_find_purge split: option.splits)

lemma live_put_new_purge:
  "live t (umap_put key (new_item v) (purge s key m)) = (live t m)(key \<mapsto> v)"
  by (rule ext) (simp add: live_put_new live_purge_other)

lemma find_purge_live: "map_option contents (umap_find key (purge t key m)) = live t m key"
  by (auto simp: live_def umap_find_purge split: option.splits)

lemma found_purge: "found d (umap_find key (purge t key m)) = (case live t m key of Some v \<Rightarrow> v | None \<Rightarrow> d)"
  by (auto simp: live_def umap_find_purge split: option.splits)

lemma find_purge_alive: "umap_find key (purge t key m) = Some item \<Longrightarrow> \<not> expired_at t item"
  by (auto simp: umap_find_purge split: option.splits if_splits)

lemma live_put_stored [view_simps]:
  "live t (umap_put key (stored v (umap_find key (purge t key m))) (purge t key m)) = (live t m)(key \<mapsto> v)"
proof (rule ext)
  fix k
  show "live t (umap_put key (stored v (umap_find key (purge t key m))) (purge t key m)) k
      = ((live t m)(key \<mapsto> v)) k"
  proof (cases "k = key")
    case True
    show ?thesis
      by (cases "umap_find key (purge t key m)")
        (auto simp: True live_def dest: find_purge_alive)
  next
    case False
    then show ?thesis
      by (auto simp: live_def um.find_put umap_find_purge split: option.splits)
  qed
qed

lemma live_erase: "live t (umap_erase key m) = (live t m)(key := None)"
  by (rule ext) (simp add: live_def um.find_erase)

section \<open>Time\<close>

text \<open>\<open>steady_clock\<close> never goes back.\<close>

definition steady :: "world \<Rightarrow> bool" where
  "steady w \<longleftrightarrow> mono (clock w)"

lemma steadyD: "steady w \<Longrightarrow> i \<le> j \<Longrightarrow> clock w i \<le> clock w j"
  by (simp add: steady_def monoD)

lemma steady_times:
  assumes "steady w" and "clock w (reads w + all_looks key w) \<le> t"
  shows "string_time key w \<le> t" "hash_time key w \<le> t" "list_time key w \<le> t" "set_time key w \<le> t"
  using assms(2) steadyD [OF assms(1)]
  by (auto simp: time_defs all_looks_def intro!: order_trans [OF _ assms(2)] steadyD [OF assms(1)])

section \<open>The calls a client can make\<close>

datatype call =
    Call_ping
  | Call_set string string
  | Call_get string
  | Call_incr string
  | Call_decr string
  | Call_incrby string int
  | Call_hset string string string
  | Call_hget string string
  | Call_hgetall string
  | Call_lpush string "string list"
  | Call_rpop string
  | Call_lrange string int int
  | Call_sadd string "string list"
  | Call_srem string "string list"
  | Call_sismember string string
  | Call_smembers string
  | Call_scard string
  | Call_expire string int
  | Call_ttl string

primrec call_key :: "call \<Rightarrow> string option" where
  "call_key Call_ping = None"
| "call_key (Call_set k v) = Some k"
| "call_key (Call_get k) = Some k"
| "call_key (Call_incr k) = Some k"
| "call_key (Call_decr k) = Some k"
| "call_key (Call_incrby k d) = Some k"
| "call_key (Call_hset k f v) = Some k"
| "call_key (Call_hget k f) = Some k"
| "call_key (Call_hgetall k) = Some k"
| "call_key (Call_lpush k vs) = Some k"
| "call_key (Call_rpop k) = Some k"
| "call_key (Call_lrange k i j) = Some k"
| "call_key (Call_sadd k ms) = Some k"
| "call_key (Call_srem k ms) = Some k"
| "call_key (Call_sismember k m) = Some k"
| "call_key (Call_smembers k) = Some k"
| "call_key (Call_scard k) = Some k"
| "call_key (Call_expire k s) = Some k"
| "call_key (Call_ttl k) = Some k"

text \<open>The state a call leaves.\<close>

primrec perform :: "call \<Rightarrow> world \<Rightarrow> world" where
  "perform Call_ping w = snd (run_state storage_ping w)"
| "perform (Call_set k v) w = snd (run_state (storage_set k v) w)"
| "perform (Call_get k) w = snd (run_state (storage_get k) w)"
| "perform (Call_incr k) w = snd (run_state (storage_incr k) w)"
| "perform (Call_decr k) w = snd (run_state (storage_decr k) w)"
| "perform (Call_incrby k d) w = snd (run_state (storage_incrby k d) w)"
| "perform (Call_hset k f v) w = snd (run_state (storage_hset k f v) w)"
| "perform (Call_hget k f) w = snd (run_state (storage_hget k f) w)"
| "perform (Call_hgetall k) w = snd (run_state (storage_hgetall k) w)"
| "perform (Call_lpush k vs) w = snd (run_state (storage_lpush k vs) w)"
| "perform (Call_rpop k) w = snd (run_state (storage_rpop k) w)"
| "perform (Call_lrange k i j) w = snd (run_state (storage_lrange k i j) w)"
| "perform (Call_sadd k ms) w = snd (run_state (storage_sadd k ms) w)"
| "perform (Call_srem k ms) w = snd (run_state (storage_srem k ms) w)"
| "perform (Call_sismember k m) w = snd (run_state (storage_sismember k m) w)"
| "perform (Call_smembers k) w = snd (run_state (storage_smembers k) w)"
| "perform (Call_scard k) w = snd (run_state (storage_scard k) w)"
| "perform (Call_expire k s) w = snd (run_state (storage_expire k s) w)"
| "perform (Call_ttl k) w = snd (run_state (storage_ttl k) w)"

declare perform.simps [simp del, exec_simps]

primrec perform_all :: "call list \<Rightarrow> world \<Rightarrow> world" where
  "perform_all [] w = w"
| "perform_all (c # cs) w = perform_all cs (perform c w)"

text \<open>
  What the C++ types of the arguments promise (\<open>long long\<close>), and the session's guard that a
  set operation names at least one member.
\<close>

primrec call_ok :: "call \<Rightarrow> bool" where
  "call_ok Call_ping \<longleftrightarrow> True"
| "call_ok (Call_set k v) \<longleftrightarrow> True"
| "call_ok (Call_get k) \<longleftrightarrow> True"
| "call_ok (Call_incr k) \<longleftrightarrow> True"
| "call_ok (Call_decr k) \<longleftrightarrow> True"
| "call_ok (Call_incrby k d) \<longleftrightarrow> fits64 d"
| "call_ok (Call_hset k f v) \<longleftrightarrow> True"
| "call_ok (Call_hget k f) \<longleftrightarrow> True"
| "call_ok (Call_hgetall k) \<longleftrightarrow> True"
| "call_ok (Call_lpush k vs) \<longleftrightarrow> True"
| "call_ok (Call_rpop k) \<longleftrightarrow> True"
| "call_ok (Call_lrange k i j) \<longleftrightarrow> True"
| "call_ok (Call_sadd k ms) \<longleftrightarrow> ms \<noteq> []"
| "call_ok (Call_srem k ms) \<longleftrightarrow> True"
| "call_ok (Call_sismember k m) \<longleftrightarrow> True"
| "call_ok (Call_smembers k) \<longleftrightarrow> True"
| "call_ok (Call_scard k) \<longleftrightarrow> True"
| "call_ok (Call_expire k s) \<longleftrightarrow> fits64 s"
| "call_ok (Call_ttl k) \<longleftrightarrow> True"

section \<open>Isolation: a call changes nothing under another key\<close>

definition same_under :: "string \<Rightarrow> world \<Rightarrow> world \<Rightarrow> bool" where
  "same_under key w w' \<longleftrightarrow>
     umap_find key (string_data w') = umap_find key (string_data w) \<and>
     umap_find key (hash_data w') = umap_find key (hash_data w) \<and>
     umap_find key (list_data w') = umap_find key (list_data w) \<and>
     umap_find key (set_data w') = umap_find key (set_data w)"

lemma find_purge_other: "k \<noteq> key \<Longrightarrow> umap_find k (purge t key m) = umap_find k m"
  by (simp add: umap_find_purge split: option.splits)

lemma find_set_expiry_other: "k \<noteq> key \<Longrightarrow> umap_find k (set_expiry key e m) = umap_find k m"
  by (simp add: set_expiry_def split: option.splits)

lemma find_popped_other: "k \<noteq> key \<Longrightarrow> umap_find k (popped key m) = umap_find k m"
  by (simp add: popped_def split: option.splits)

lemma find_srem_map_other: "k \<noteq> key \<Longrightarrow> umap_find k (srem_map key s m) = umap_find k m"
  by (simp add: srem_map_def split: option.splits)

lemmas find_other = find_purge_other find_set_expiry_other find_popped_other find_srem_map_other

lemma perform_isolated:
  assumes "call_ok c" and "call_key c \<noteq> Some key"
  shows "same_under key w (perform c w)"
proof (cases c)
  case (Call_expire k s)
  with assms show ?thesis
    by (simp add: same_under_def exec_simps find_other Let_def started_expire_def)
next
  case (Call_ttl k)
  with assms show ?thesis
    by (simp add: same_under_def exec_simps find_other Let_def split: option.splits)
qed (use assms in \<open>simp_all add: same_under_def exec_simps find_other counter_after_def Let_def\<close>)

lemma perform_clock: "call_ok c \<Longrightarrow> clock (perform c w) = clock w"
  by (cases c) (simp_all add: exec_simps counter_after_def started_expire_def Let_def split: option.splits)

lemma perform_all_isolated:
  assumes "\<And>c. c \<in> set cs \<Longrightarrow> call_ok c \<and> call_key c \<noteq> Some key"
  shows "same_under key w (perform_all cs w)"
  using assms
proof (induction cs arbitrary: w)
  case Nil
  then show ?case by (simp add: same_under_def)
next
  case (Cons c cs)
  then have "same_under key w (perform c w)" by (simp add: perform_isolated)
  moreover have "same_under key (perform c w) (perform_all cs (perform c w))"
    using Cons.prems by (intro Cons.IH) simp
  ultimately show ?case by (simp add: same_under_def)
qed

text \<open>
  C1. Read your writes: a value stored with \<open>set\<close> is what \<open>get\<close> returns, after any number of
  other calls on other keys and however much time has passed (\<open>set\<close> clears an expiry).
\<close>

theorem set_then_get:
  assumes "\<forall>c \<in> set cs. call_ok c \<and> call_key c \<noteq> Some key"
  shows "fst (run_state (storage_get key) (perform_all cs (perform (Call_set key value) w))) = Some value"
proof -
  let ?w = "perform (Call_set key value) w"
  have "umap_find key (string_data ?w) = Some (new_item value)"
    by (simp add: exec_simps)
  moreover have "same_under key ?w (perform_all cs ?w)"
    using assms by (intro perform_all_isolated) blast
  ultimately show ?thesis
    by (simp add: same_under_def exec_simps umap_find_purge)
qed

theorem set_then_get_witness:
  "fst (run_state (storage_get ''a'') (perform_all [Call_incr ''b'', Call_expire ''c'' 5]
     (perform (Call_set ''a'' ''1'') (storage_init (\<lambda>n. 7) rev)))) = Some ''1''"
  by (rule set_then_get) (simp add: fits64_def)

text \<open>
  C2. Isolation: a call leaves everything stored under every other key, in all four keyspaces,
  as it was, expiry times included.
\<close>

theorem calls_are_isolated:
  assumes "call_ok c" and "call_key c \<noteq> Some key"
  shows "umap_find key (string_data (perform c w)) = umap_find key (string_data w)
    \<and> umap_find key (hash_data (perform c w)) = umap_find key (hash_data w)
    \<and> umap_find key (list_data (perform c w)) = umap_find key (list_data w)
    \<and> umap_find key (set_data (perform c w)) = umap_find key (set_data w)"
  using perform_isolated [OF assms] by (simp add: same_under_def)

theorem calls_are_isolated_witness:
  "umap_find ''a'' (string_data (perform (Call_incr ''b'') (perform (Call_set ''a'' ''x'')
      (storage_init (\<lambda>n. 7) rev)))) = Some (new_item ''x'')"
proof -
  let ?w = "perform (Call_set ''a'' ''x'') (storage_init (\<lambda>n. 7) rev)"
  have "umap_find ''a'' (string_data ?w) = Some (new_item ''x'')"
    by (simp add: exec_simps)
  then show ?thesis
    using calls_are_isolated [of "Call_incr ''b''" "''a''" ?w] by simp
qed

section \<open>Frame: what a call does not write stays live\<close>

primrec writes :: "call \<Rightarrow> mutex set" where
  "writes Call_ping = {}"
| "writes (Call_set k v) = {String_mutex}"
| "writes (Call_get k) = {}"
| "writes (Call_incr k) = {String_mutex}"
| "writes (Call_decr k) = {String_mutex}"
| "writes (Call_incrby k d) = {String_mutex}"
| "writes (Call_hset k f v) = {Hash_mutex}"
| "writes (Call_hget k f) = {}"
| "writes (Call_hgetall k) = {}"
| "writes (Call_lpush k vs) = {List_mutex}"
| "writes (Call_rpop k) = {List_mutex}"
| "writes (Call_lrange k i j) = {}"
| "writes (Call_sadd k ms) = {Set_mutex}"
| "writes (Call_srem k ms) = {Set_mutex}"
| "writes (Call_sismember k m) = {}"
| "writes (Call_smembers k) = {}"
| "writes (Call_scard k) = {}"
| "writes (Call_expire k s) = {String_mutex, Hash_mutex, List_mutex, Set_mutex}"
| "writes (Call_ttl k) = {}"

lemmas view_defs = string_view_def hash_view_def list_view_def set_view_def

lemma view_cong:
  assumes "live t (string_data w') = live t (string_data w)"
  shows "string_view t w' = string_view t w"
  using assms by (simp add: string_view_def)

lemma hash_view_cong:
  assumes "live t (hash_data w') = live t (hash_data w)"
  shows "hash_view t w' = hash_view t w"
  using assms by (simp add: fun_eq_iff hash_view_def)

lemma set_view_cong:
  assumes "live t (set_data w') = live t (set_data w)"
  shows "set_view t w' = set_view t w"
  using assms by (simp add: fun_eq_iff set_view_def)

text \<open>
  C3. Reading calls and the lazy sweep are invisible: a call leaves the live contents of every
  keyspace it does not write as they are, at every instant from its last reading of the
  clock on.
\<close>

theorem calls_frame:
  assumes "call_ok c" and "steady w" and "clock w (reads (perform c w)) \<le> t"
  shows "(String_mutex \<notin> writes c \<longrightarrow> string_view t (perform c w) = string_view t w)
    \<and> (Hash_mutex \<notin> writes c \<longrightarrow> hash_view t (perform c w) = hash_view t w)
    \<and> (List_mutex \<notin> writes c \<longrightarrow> list_view t (perform c w) = list_view t w)
    \<and> (Set_mutex \<notin> writes c \<longrightarrow> set_view t (perform c w) = set_view t w)"
proof (cases c)
  case (Call_ttl k)
  have t: "clock w (Suc (reads w)) \<le> t"
    using assms(3) steadyD [OF assms(2)]
    by (auto simp: Call_ttl exec_simps Let_def split: option.splits
        intro: order_trans [OF _ assms(3)])
  then show ?thesis
    by (auto simp: Call_ttl exec_simps Let_def view_defs fun_eq_iff live_purge split: option.splits)
qed (use assms steady_times [OF assms(2)] in \<open>auto simp: exec_simps counter_after_def Let_def
    view_defs live_purge fun_eq_iff\<close>)

theorem calls_frame_witness:
  "string_view 9 (perform (Call_lpush ''q'' [''x'']) (storage_init (\<lambda>n. 7) rev)) =
     string_view 9 (storage_init (\<lambda>n. 7) rev)"
proof -
  have "steady (storage_init (\<lambda>n. 7) rev)"
    by (simp add: steady_def storage_init_def mono_def)
  then show ?thesis
    using calls_frame [of "Call_lpush ''q'' [''x'']" "storage_init (\<lambda>n. 7) rev" 9]
    by (simp add: exec_simps storage_init_def)
qed

section \<open>Strings and counters\<close>

text \<open>
  C5. \<open>set\<close> and \<open>get\<close> refine a partial map from keys to strings: \<open>set\<close> updates the live strings
  at every instant, \<open>get\<close> returns the string live at its reading of the clock.
\<close>

theorem strings_refine_map:
  "string_view t (perform (Call_set key value) w) = (string_view t w)(key \<mapsto> value)
   \<and> fst (run_state (storage_set key value) w) = True
   \<and> fst (run_state (storage_get key) w) = string_view (string_time key w) w key"
  by (simp add: exec_simps string_view_def live_put_new_purge find_purge_live)

text \<open>The number a counter command sees: 0 for a missing key and for a value \<open>stoll\<close> rejects.\<close>

definition counter_value :: "string option \<Rightarrow> int" where
  "counter_value v = (case v of
     Some s \<Rightarrow> (case stoll s of Inr n \<Rightarrow> n | Inl _ \<Rightarrow> 0) | None \<Rightarrow> 0)"

lemma counter_sum_view: "counter_sum key d (purge t key m) = counter_value (live t m key) + d"
  by (auto simp: counter_sum_def counter_value_def live_def umap_find_purge split: option.splits sum.splits)

lemma counter_item_alive: "\<not> expired_at t (counter_item key d (purge t key m))"
  by (auto simp: counter_item_def split: option.splits sum.splits dest: find_purge_alive)

lemma counter_item_contents:
  assumes "fits64 d"
  shows "contents (counter_item key d (purge t key m)) =
    to_string (wrap64 (counter_sum key d (purge t key m)))"
  using assms by (simp add: counter_item_def counter_sum_def split: option.splits sum.splits)

lemma live_counter_put:
  assumes "fits64 d"
  shows "live t (umap_put key (counter_item key d (purge t key m)) (purge t key m)) =
    (live t m)(key \<mapsto> to_string (wrap64 (counter_value (live t m key) + d)))"
proof (rule ext)
  fix k
  show "live t (umap_put key (counter_item key d (purge t key m)) (purge t key m)) k =
    ((live t m)(key \<mapsto> to_string (wrap64 (counter_value (live t m key) + d)))) k"
  proof (cases "k = key")
    case True
    then show ?thesis
      using assms counter_item_alive [of t key d m]
      by (simp add: live_def [of t "umap_put _ _ _"] counter_item_contents counter_sum_view)
  next
    case False
    then show ?thesis
      by (simp add: live_def um.find_put umap_find_purge split: option.splits)
  qed
qed

text \<open>
  C10. \<open>incrby\<close>, \<open>incr\<close> and \<open>decr\<close> add to the live number (0 when there is none), return the
  sum wrapped to 64 bits and store its decimal form; they overflow exactly when the sum
  does not fit, which is the only undefined arithmetic they can do.
\<close>

theorem counters_add:
  assumes "fits64 d"
  shows "let T = string_time key w; n = counter_value (string_view T w key) + d in
      fst (run_state (storage_incrby key d) w) = wrap64 n
    \<and> string_view T (perform (Call_incrby key d) w) = (string_view T w)(key \<mapsto> to_string (wrap64 n))
    \<and> trace (perform (Call_incrby key d) w) =
        trace w @ [Lock String_mutex] @ sweep_trace key w
          @ (if fits64 n then [] else [Signed_overflow]) @ [Unlock String_mutex]
    \<and> run_state (storage_incr key) w = run_state (storage_incrby key 1) w
    \<and> run_state (storage_decr key) w = run_state (storage_incrby key (- 1)) w"
  using assms
  by (simp add: exec_simps counter_after_def Let_def counter_sum_view string_view_def
      live_counter_put write_events_def overflow_events_def fits64_def)

theorem counters_add_witness:
  "fst (run_state (storage_incrby ''n'' 3) (perform (Call_set ''n'' ''12abc'')
     (storage_init (\<lambda>n. 7) rev))) = 15"
proof -
  have "fits64 3" by (simp add: fits64_def)
  moreover have "string_view t (perform (Call_set ''n'' ''12abc'') (storage_init (\<lambda>n. 7) rev)) ''n''
      = Some ''12abc''" for t
    by (simp add: exec_simps string_view_def live_put_new_purge)
  moreover have "counter_value (Some ''12abc'') = 12" by code_simp
  ultimately show ?thesis
    using counters_add [of 3 "''n''" "perform (Call_set ''n'' ''12abc'') (storage_init (\<lambda>n. 7) rev)"]
    by (simp add: Let_def fits64_def)
qed

text \<open>
  A counter without expiry that holds a number keeps holding one: \<open>counts key n w\<close>.
\<close>

definition counts :: "string \<Rightarrow> int \<Rightarrow> world \<Rightarrow> bool" where
  "counts key n w \<longleftrightarrow> (\<exists>item. umap_find key (string_data w) = Some item
     \<and> \<not> has_expiry item \<and> contents item = to_string n)"

lemma counts_incrby:
  assumes "counts key n w" and "fits64 n" and "fits64 d" and "fits64 (n + d)"
  shows "counts key (n + d) (perform (Call_incrby key d) w)"
    and "fst (run_state (storage_incrby key d) w) = n + d"
proof -
  from assms(1) obtain item where item: "umap_find key (string_data w) = Some item"
    "\<not> has_expiry item" "contents item = to_string n" by (auto simp: counts_def)
  then have "umap_find key (purge (string_time key w) key (string_data w)) = Some item"
    by (simp add: umap_find_purge expired_at_def)
  then show "counts key (n + d) (perform (Call_incrby key d) w)"
    "fst (run_state (storage_incrby key d) w) = n + d"
    using assms item by (simp_all add: counts_def exec_simps counter_after_def Let_def
        counter_sum_def counter_item_def)
qed

lemma counts_isolated:
  "counts key n w \<Longrightarrow> same_under key w w' \<Longrightarrow> counts key n w'"
  by (simp add: counts_def same_under_def)

text \<open>Increments of \<open>key\<close> among a sequence of calls.\<close>

primrec increments :: "string \<Rightarrow> call list \<Rightarrow> int list" where
  "increments key [] = []"
| "increments key (c # cs) = (case c of
     Call_incrby k d \<Rightarrow> if k = key then d # increments key cs else increments key cs
   | _ \<Rightarrow> increments key cs)"

text \<open>Calls on \<open>key\<close> are increments; partial sums fit.\<close>

primrec sums_fit :: "int \<Rightarrow> int list \<Rightarrow> bool" where
  "sums_fit n [] \<longleftrightarrow> fits64 n"
| "sums_fit n (d # ds) \<longleftrightarrow> fits64 n \<and> sums_fit (n + d) ds"

lemma sums_fit_start: "sums_fit n ds \<Longrightarrow> fits64 n"
  by (cases ds) auto

lemma counts_perform_all:
  assumes "\<forall>c \<in> set cs. call_ok c \<and> (call_key c = Some key \<longrightarrow> (\<exists>d. c = Call_incrby key d))"
    and "counts key n w" and "sums_fit n (increments key cs)"
  shows "counts key (n + sum_list (increments key cs)) (perform_all cs w)"
  using assms
proof (induction cs arbitrary: n w)
  case Nil
  then show ?case by simp
next
  case (Cons c cs)
  show ?case
  proof (cases "call_key c = Some key")
    case True
    with Cons.prems(1) obtain d where c: "c = Call_incrby key d" "fits64 d" by auto
    with Cons.prems(3) have "fits64 n" "sums_fit (n + d) (increments key cs)" by auto
    moreover from this(2) have "fits64 (n + d)" by (rule sums_fit_start)
    moreover from calculation Cons.prems(2) c have "counts key (n + d) (perform c w)"
      using counts_incrby(1) [of key n w d] by simp
    ultimately have "counts key (n + d + sum_list (increments key cs))
        (perform_all cs (perform c w))"
      using Cons.prems(1) by (intro Cons.IH) auto
    then show ?thesis by (simp add: c add.assoc)
  next
    case False
    with Cons.prems(1,2) have "counts key n (perform c w)"
      by (auto intro: counts_isolated perform_isolated)
    moreover from False have "increments key (c # cs) = increments key cs"
      by (cases c) auto
    ultimately show ?thesis using Cons by simp
  qed
qed

text \<open>
  C11. Counting is exact: after \<open>set\<close> of a number and any interleaving of \<open>incrby\<close> calls on the
  key with calls on other keys, the key holds the number plus the sum of the increments,
  as long as the running total fits into a \<open>long long\<close>.
\<close>

theorem counter_total:
  assumes "\<forall>c \<in> set cs. call_ok c \<and> (call_key c = Some key \<longrightarrow> (\<exists>d. c = Call_incrby key d))"
    and "sums_fit n (increments key cs)"
  shows "fst (run_state (storage_get key) (perform_all cs (perform (Call_set key (to_string n)) w)))
    = Some (to_string (n + sum_list (increments key cs)))"
proof -
  have "counts key n (perform (Call_set key (to_string n)) w)"
    by (simp add: counts_def exec_simps new_item_def)
  with assms have "counts key (n + sum_list (increments key cs))
      (perform_all cs (perform (Call_set key (to_string n)) w))"
    by (intro counts_perform_all)
  then show ?thesis
    by (auto simp: counts_def exec_simps umap_find_purge expired_at_def)
qed

theorem counter_total_witness:
  "fst (run_state (storage_get ''n'') (perform_all
     [Call_incrby ''n'' 5, Call_set ''m'' ''x'', Call_incrby ''n'' (- 2)]
     (perform (Call_set ''n'' (to_string 10)) (storage_init (\<lambda>n. 7) rev)))) = Some (to_string 13)"
  using counter_total [of "[Call_incrby ''n'' 5, Call_set ''m'' ''x'', Call_incrby ''n'' (- 2)]"
      "''n''" 10 "storage_init (\<lambda>n. 7) rev"]
  by (simp add: fits64_def)

section \<open>Hashes\<close>

text \<open>
  C6. The hash operations refine a partial map of partial maps: \<open>hget\<close> looks a field up in the
  live hash, \<open>hset\<close> updates one field of it (creating the hash) and always returns true, and
  \<open>hgetall\<close> returns exactly its fields, an empty map for a missing or expired key.
\<close>

theorem hashes_refine_map:
  "let T = hash_time key w;
       h = (case hash_view T w key of Some h \<Rightarrow> h | None \<Rightarrow> (\<lambda>_. None)) in
     fst (run_state (storage_hget key field) w) = h field
   \<and> (\<lambda>f. umap_find f (fst (run_state (storage_hgetall key) w))) = h
   \<and> fst (run_state (storage_hset key field v) w) = True
   \<and> hash_view T (perform (Call_hset key field v) w) = (hash_view T w)(key \<mapsto> h(field \<mapsto> v))"
  by (auto simp: Let_def exec_simps hash_view_def fun_eq_iff found_purge live_put_stored um.find_put
      um.find_empty split: option.splits)

section \<open>Lists\<close>

lemma live_popped:
  "live t (popped key (purge t key m)) =
     (case live t m key of
        Some xs \<Rightarrow> if xs = [] then live t m else (live t m)(key \<mapsto> butlast xs)
      | None \<Rightarrow> live t m)"
proof (cases "umap_find key (purge t key m)")
  case None
  then have "live t m key = None" using find_purge_live [of key t m] by simp
  with None show ?thesis by (simp add: popped_def live_purge)
next
  case (Some item)
  then have "live t m key = Some (contents item)" using find_purge_live [of key t m] by simp
  moreover have "live t (umap_put key (item\<lparr>contents := butlast (contents item)\<rparr>) (purge t key m))
      = (live t m)(key \<mapsto> butlast (contents item))"
    using live_put_stored [of t key "butlast (contents item)" m] Some by simp
  ultimately show ?thesis using Some by (simp add: popped_def live_purge)
qed

text \<open>
  C7. The list operations refine a map of lists, a missing or expired key standing for the empty
  list: \<open>lpush\<close> puts the given values in front, in their order, and returns the new length;
  \<open>rpop\<close> takes the last element, or changes nothing when there is none; \<open>lrange\<close> reads.
\<close>

theorem lists_refine_map:
  "let T = list_time key w;
       xs = (case list_view T w key of Some xs \<Rightarrow> xs | None \<Rightarrow> []) in
     fst (run_state (storage_lpush key vals) w) = int (length (vals @ xs))
   \<and> list_view T (perform (Call_lpush key vals) w) = (list_view T w)(key \<mapsto> vals @ xs)
   \<and> fst (run_state (storage_rpop key) w) = (if xs = [] then None else Some (last xs))
   \<and> list_view T (perform (Call_rpop key) w) =
       (if xs = [] then list_view T w else (list_view T w)(key \<mapsto> butlast xs))
   \<and> fst (run_state (storage_lrange key i j) w) = lrange_values xs i j"
  by (auto simp: Let_def exec_simps list_view_def found_purge live_put_stored live_popped
      split: option.splits)

text \<open>The index \<open>lrange\<close> uses for \<open>i\<close> in a list of \<open>n\<close> elements.\<close>

definition lrange_index :: "int \<Rightarrow> int \<Rightarrow> int" where
  "lrange_index n i = max 0 (min (if i < 0 then n + i else i) (n - 1))"

text \<open>
  C12. \<open>lrange\<close> never reads out of bounds: for a non-empty list both indices are normalised into
  \<open>[0, size - 1]\<close> and the elements between them, in order, are returned. The whole list is
  \<open>lrange 0 (-1)\<close>. A start past the end is clamped to the last index: it gives the last element
  if the normalised end is the last index as well, and nothing if the end lies before it.
\<close>

theorem lrange_reads_indices:
  assumes "xs \<noteq> []"
  shows "lrange_values xs i j =
      map (\<lambda>k. xs ! nat k) [lrange_index (int (length xs)) i .. lrange_index (int (length xs)) j]
    \<and> (\<forall>k. lrange_index (int (length xs)) k \<in> {0 ..< int (length xs)})
    \<and> lrange_values xs 0 (- 1) = xs
    \<and> (int (length xs) \<le> i \<longrightarrow> lrange_values xs i j =
        (if lrange_index (int (length xs)) j = int (length xs) - 1 then [last xs] else []))"
proof -
  let ?n = "int (length xs)"
  have n: "0 < ?n" using assms by simp
  have bounds: "0 \<le> lrange_index ?n k \<and> lrange_index ?n k < ?n" for k
    using n by (auto simp: lrange_index_def)
  have slice: "take (nat (hi + 1) - nat lo) (drop (nat lo) xs) = map (\<lambda>k. xs ! nat k) [lo .. hi]"
    if "0 \<le> lo" "lo \<le> hi" "hi < ?n" for lo hi
    using that by (intro nth_equalityI) (auto simp: nth_append nat_add_distrib)
  have main: "lrange_values xs i j =
      map (\<lambda>k. xs ! nat k) [lrange_index ?n i .. lrange_index ?n j]" for i j
  proof -
    let ?I = "lrange_index ?n i" and ?J = "lrange_index ?n j"
    have "lrange_values xs i j = (if ?J < ?I then [] else take (nat (?J + 1) - nat ?I) (drop (nat ?I) xs))"
      by (simp only: lrange_values_def Let_def lrange_index_def assms if_False)
    then show ?thesis
      using bounds [of i] bounds [of j] slice [of ?I ?J] by auto
  qed
  have "lrange_values xs 0 (- 1) = xs"
    using assms by (simp add: lrange_values_def Let_def)
  moreover have "lrange_values xs i j = (if lrange_index ?n j = ?n - 1 then [last xs] else [])" if "?n \<le> i"
  proof -
    have "lrange_index ?n i = ?n - 1" using that n by (auto simp: lrange_index_def)
    moreover have "nat (?n - 1) = length xs - Suc 0" by arith
    ultimately show ?thesis
      using assms bounds [of j] by (simp add: main last_conv_nth)
  qed
  ultimately show ?thesis using main bounds by auto
qed

theorem lrange_reads_indices_witness:
  "lrange_values [''a'', ''b'', ''c''] 1 (- 1) = [''b'', ''c'']
   \<and> lrange_values [''a'', ''b'', ''c''] 7 9 = [''c''] \<and> lrange_values [''a'', ''b'', ''c''] 7 1 = []"
  using lrange_reads_indices [of "[''a'', ''b'', ''c'']" 1 "- 1"]
    lrange_reads_indices [of "[''a'', ''b'', ''c'']" 7 9] lrange_reads_indices [of "[''a'', ''b'', ''c'']" 7 1]
  by (simp add: lrange_index_def upto.simps)

text \<open>A queue: one \<open>lpush\<close> per value, then one \<open>rpop\<close> per value.\<close>

primrec pushes :: "string \<Rightarrow> string list \<Rightarrow> world \<Rightarrow> world" where
  "pushes key [] w = w"
| "pushes key (v # vs) w = pushes key vs (perform (Call_lpush key [v]) w)"

primrec pops :: "string \<Rightarrow> nat \<Rightarrow> world \<Rightarrow> string option list" where
  "pops key 0 w = []"
| "pops key (Suc n) w =
     fst (run_state (storage_rpop key) w) # pops key n (perform (Call_rpop key) w)"

definition queue_is :: "string \<Rightarrow> string list \<Rightarrow> world \<Rightarrow> bool" where
  "queue_is key xs w \<longleftrightarrow> (case umap_find key (list_data w) of
     Some item \<Rightarrow> \<not> has_expiry item \<and> contents item = xs | None \<Rightarrow> xs = [])"

lemma find_purge_no_expiry:
  "umap_find key m = Some item \<Longrightarrow> \<not> has_expiry item \<Longrightarrow> umap_find key (purge t key m) = Some item"
  by (simp add: umap_find_purge expired_at_def)

lemma find_purge_absent: "umap_find key m = None \<Longrightarrow> umap_find key (purge t key m) = None"
  by (simp add: umap_find_purge)

lemma queue_is_push: "queue_is key xs w \<Longrightarrow> queue_is key (vs @ xs) (perform (Call_lpush key vs) w)"
  by (auto simp: queue_is_def exec_simps find_purge_no_expiry find_purge_absent new_item_def
      split: option.splits)

lemma queue_is_pop:
  assumes "queue_is key (xs @ [x]) w"
  shows "fst (run_state (storage_rpop key) w) = Some x"
    and "queue_is key xs (perform (Call_rpop key) w)"
  using assms
  by (auto simp: queue_is_def exec_simps find_purge_no_expiry popped_def split: option.splits)

lemma queue_is_pushes: "queue_is key xs w \<Longrightarrow> queue_is key (rev vs @ xs) (pushes key vs w)"
proof (induction vs arbitrary: xs w)
  case (Cons v vs)
  have "queue_is key ([v] @ xs) (perform (Call_lpush key [v]) w)"
    using Cons.prems by (rule queue_is_push)
  then have "queue_is key (rev vs @ [v] @ xs) (pushes key vs (perform (Call_lpush key [v]) w))"
    by (rule Cons.IH)
  then show ?case by simp
qed simp

lemma queue_is_pops: "queue_is key (rev vs) w \<Longrightarrow> pops key (length vs) w = map Some vs"
proof (induction vs arbitrary: w)
  case (Cons v vs)
  then have "queue_is key (rev vs @ [v]) w" by simp
  then show ?case using queue_is_pop [of key "rev vs" v w] Cons.IH by simp
qed simp

text \<open>
  C13. \<open>lpush\<close> and \<open>rpop\<close> make a list a first-in first-out queue: values pushed one by one onto a
  fresh key are popped in the order they were pushed, and then the queue is empty.
\<close>

theorem lpush_rpop_fifo:
  assumes "umap_find key (list_data w) = None"
  shows "pops key (length vs) (pushes key vs w) = map Some vs"
proof -
  have "queue_is key [] w" using assms by (simp add: queue_is_def)
  from queue_is_pushes [OF this, of vs] show ?thesis by (simp add: queue_is_pops)
qed

theorem lpush_rpop_fifo_witness:
  "pops ''q'' (length [''a'', ''b'']) (pushes ''q'' [''a'', ''b''] (storage_init (\<lambda>n. 7) rev))
     = [Some ''a'', Some ''b'']"
  by (rule lpush_rpop_fifo [THEN trans]) (simp_all add: storage_init_def um.find_empty)

end
