(* ===== verification/Storage_Sets.thy ===== *)
theory Storage_Sets
  imports Storage_Spec
begin

text \<open>
  The set commands of \<open>Storage\<close> as operations on mathematical sets, with the numbers they
  return, and the well-formedness invariant every call keeps: keys occur once in every map,
  in the maps inside hashes and sets too, and no empty set is stored unless \<open>sadd\<close> is called
  without members.
\<close>

section \<open>The loops\<close>

abbreviation keyset :: "('k, 'v) umap \<Rightarrow> 'k set" where
  "keyset m \<equiv> set (umap_keys m)"

lemma finite_new: "finite (set ms - A)" by simp

lemma keyset_empty [simp]: "keyset umap_empty = {}"
  by (simp add: umap_keys_def umap_empty_def)

lemma keyset_eq_empty [simp]: "keyset m = {} \<longleftrightarrow> m = umap_empty"
  by (simp add: umap_keys_def umap_empty_def)

lemma find_None_keyset: "umap_find k m = None \<longleftrightarrow> k \<notin> keyset m"
  by (simp add: um.in_keys)

lemma sadd_existing_spec:
  "keyset (fst (sadd_existing ms s a)) = keyset s \<union> set ms
   \<and> snd (sadd_existing ms s a) = a + int (card (set ms - keyset s))"
proof (induction ms arbitrary: s a)
  case (Cons m ms)
  show ?case
  proof (cases "m \<in> keyset s")
    case True
    then show ?thesis
      using Cons.IH [of s a] by (auto simp: find_None_keyset insert_Diff_if)
  next
    case False
    have "set ms - insert m (keyset s) = (set (m # ms) - keyset s) - {m}" by auto
    moreover have "m \<in> set (m # ms) - keyset s" using False by simp
    ultimately have "card (set (m # ms) - keyset s) = Suc (card (set ms - insert m (keyset s)))"
      by (metis card.remove finite_Diff finite_set)
    then show ?thesis
      using False Cons.IH [of "umap_put m True s" "a + 1"]
      by (auto simp: find_None_keyset um.set_keys_put)
  qed
qed simp

lemma sadd_new_spec:
  "keyset (fst (sadd_new ms s a)) = keyset s \<union> set ms \<and> snd (sadd_new ms s a) = a + int (length ms)"
  by (induction ms arbitrary: s a) (auto simp: um.set_keys_put)

lemma srem_loop_spec:
  "keyset (fst (srem_loop ms s r)) = keyset s - set ms
   \<and> snd (srem_loop ms s r) = r + int (card (set ms \<inter> keyset s))"
proof (induction ms arbitrary: s r)
  case (Cons m ms)
  show ?case
  proof (cases "m \<in> keyset s")
    case True
    have "set ms \<inter> (keyset s - {m}) = (set (m # ms) \<inter> keyset s) - {m}" by auto
    moreover have "m \<in> set (m # ms) \<inter> keyset s" using True by simp
    ultimately have "card (set (m # ms) \<inter> keyset s) = Suc (card (set ms \<inter> (keyset s - {m})))"
      by (metis card.remove finite_Int finite_set)
    then show ?thesis
      using True Cons.IH [of "umap_erase m s" "r + 1"]
      by (auto simp: find_None_keyset um.set_keys_erase)
  next
    case False
    then have "keyset s - {m} = keyset s" by simp
    with False show ?thesis
      using Cons.IH [of "umap_erase m s" r]
      by (auto simp: find_None_keyset um.set_keys_erase)
  qed
qed simp

lemma sadd_existing_wf: "umap_wf s \<Longrightarrow> umap_wf (fst (sadd_existing ms s a))"
  by (induction ms arbitrary: s a) (auto simp: um.wf_put)

lemma sadd_new_wf: "umap_wf s \<Longrightarrow> umap_wf (fst (sadd_new ms s a))"
  by (induction ms arbitrary: s a) (auto simp: um.wf_put)

lemma srem_loop_wf: "umap_wf s \<Longrightarrow> umap_wf (fst (srem_loop ms s r))"
  by (induction ms arbitrary: s r) (auto simp: um.wf_erase)

section \<open>The invariant\<close>

definition store_wf :: "world \<Rightarrow> bool" where
  "store_wf w \<longleftrightarrow>
     umap_wf (string_data w) \<and> umap_wf (hash_data w) \<and> umap_wf (list_data w) \<and> umap_wf (set_data w)
   \<and> (\<forall>key item. umap_find key (hash_data w) = Some item \<longrightarrow> umap_wf (contents item))
   \<and> (\<forall>key item. umap_find key (set_data w) = Some item \<longrightarrow>
        umap_wf (contents item) \<and> contents item \<noteq> umap_empty)"

definition all_items :: "('v \<Rightarrow> bool) \<Rightarrow> (string, 'v item) umap \<Rightarrow> bool" where
  "all_items P m \<longleftrightarrow> umap_wf m \<and> (\<forall>key item. umap_find key m = Some item \<longrightarrow> P (contents item))"

lemma store_wf_all_items:
  "store_wf w \<longleftrightarrow> all_items (\<lambda>_. True) (string_data w) \<and> all_items umap_wf (hash_data w)
     \<and> all_items (\<lambda>_. True) (list_data w) \<and> all_items (\<lambda>s. umap_wf s \<and> s \<noteq> umap_empty) (set_data w)"
  by (auto simp: store_wf_def all_items_def)

lemma all_items_mono: "all_items P m \<Longrightarrow> (\<And>x. P x \<Longrightarrow> Q x) \<Longrightarrow> all_items Q m"
  by (simp add: all_items_def)

lemma all_items_purge: "all_items P m \<Longrightarrow> all_items P (purge t key m)"
  by (auto simp: all_items_def umap_find_purge split: option.splits)

lemma all_items_put: "all_items P m \<Longrightarrow> P (contents item) \<Longrightarrow> all_items P (umap_put key item m)"
  by (auto simp: all_items_def um.find_put um.wf_put)

lemma all_items_erase: "all_items P m \<Longrightarrow> all_items P (umap_erase key m)"
  by (auto simp: all_items_def um.find_erase um.wf_erase)

lemma all_items_set_expiry: "all_items P m \<Longrightarrow> all_items P (set_expiry key e m)"
  by (auto simp: set_expiry_def all_items_def um.find_put um.wf_put split: option.splits)

lemma all_items_found: "all_items P m \<Longrightarrow> P d \<Longrightarrow> P (found d (umap_find key m))"
  by (auto simp: all_items_def found_def split: option.splits)

lemma all_items_popped: "all_items (\<lambda>_. True) m \<Longrightarrow> all_items (\<lambda>_. True) (popped key m)"
  by (auto simp: popped_def all_items_put split: option.splits)

text \<open>All maps have distinct keys, and what is stored as a set satisfies \<open>P\<close>.\<close>

definition store_items :: "((string, bool) umap \<Rightarrow> bool) \<Rightarrow> world \<Rightarrow> bool" where
  "store_items P w \<longleftrightarrow> all_items (\<lambda>_. True) (string_data w) \<and> all_items umap_wf (hash_data w)
     \<and> all_items (\<lambda>_. True) (list_data w) \<and> all_items (\<lambda>s. umap_wf s \<and> P s) (set_data w)"

definition maps_wf :: "world \<Rightarrow> bool" where
  "maps_wf w \<longleftrightarrow> umap_wf (string_data w) \<and> umap_wf (hash_data w) \<and> umap_wf (list_data w) \<and> umap_wf (set_data w)
   \<and> (\<forall>key item. umap_find key (hash_data w) = Some item \<longrightarrow> umap_wf (contents item))
   \<and> (\<forall>key item. umap_find key (set_data w) = Some item \<longrightarrow> umap_wf (contents item))"

lemma store_wf_items: "store_wf w \<longleftrightarrow> store_items (\<lambda>s. s \<noteq> umap_empty) w"
  by (simp add: store_wf_all_items store_items_def)

lemma maps_wf_items: "maps_wf w \<longleftrightarrow> store_items (\<lambda>_. True) w"
  by (auto simp: maps_wf_def store_items_def all_items_def)

lemma all_items_srem:
  assumes "all_items (\<lambda>s. umap_wf s \<and> P s) m" and "\<And>s. s \<noteq> umap_empty \<Longrightarrow> P s"
  shows "all_items (\<lambda>s. umap_wf s \<and> P s) (srem_map key (fst (srem_result key ms m)) m)"
proof (cases "umap_find key m")
  case None
  with assms(1) show ?thesis by (simp add: srem_map_def)
next
  case (Some item)
  with assms(1) have "umap_wf (contents item)" by (auto simp: all_items_def)
  then have "umap_wf (fst (srem_result key ms m))"
    using Some by (simp add: srem_result_def srem_loop_wf)
  with assms Some show ?thesis
    by (auto simp: srem_map_def intro: all_items_erase all_items_put)
qed

lemma sadd_result_ok:
  assumes "all_items (\<lambda>s. umap_wf s \<and> P s) m"
  shows "umap_wf (fst (sadd_result key ms m)) \<and> (ms \<noteq> [] \<longrightarrow> fst (sadd_result key ms m) \<noteq> umap_empty)"
proof -
  have "set ms \<subseteq> keyset (fst (sadd_result key ms m))"
    by (auto simp: sadd_result_def sadd_existing_spec sadd_new_spec split: option.splits)
  then have "ms \<noteq> [] \<Longrightarrow> fst (sadd_result key ms m) \<noteq> umap_empty" by auto
  moreover have "umap_wf (fst (sadd_result key ms m))"
    using assms
    by (auto simp: sadd_result_def all_items_def sadd_existing_wf sadd_new_wf split: option.splits)
  ultimately show ?thesis by simp
qed

lemmas all_items_intros = all_items_purge all_items_put all_items_set_expiry all_items_popped
  all_items_srem

lemma store_items_perform:
  assumes "store_items P w" and P: "\<And>s. s \<noteq> umap_empty \<Longrightarrow> P s"
    and sadd: "\<And>k. c = Call_sadd k [] \<Longrightarrow> P umap_empty"
    and fits: "\<And>k d. c = Call_incrby k d \<Longrightarrow> fits64 d"
  shows "store_items P (perform c w)"
proof (cases c)
  case (Call_hset k f v)
  from assms(1) have "umap_wf (found umap_empty (umap_find k (hashes_at k w)))"
    by (intro all_items_found [where P = umap_wf]) (auto simp: store_items_def all_items_purge)
  with Call_hset assms(1) show ?thesis
    by (auto simp: store_items_def exec_simps um.wf_put intro!: all_items_intros)
next
  case (Call_sadd k ms)
  have "umap_wf (fst (sadd_result k ms (sets_at k w)))
      \<and> (ms \<noteq> [] \<longrightarrow> fst (sadd_result k ms (sets_at k w)) \<noteq> umap_empty)"
    using assms(1) by (intro sadd_result_ok [of P]) (auto simp: store_items_def all_items_purge)
  moreover have "P s" if "ms = []" for s
    using P [of s] sadd [of k] Call_sadd that by (cases "s = umap_empty") simp_all
  ultimately show ?thesis
    using Call_sadd assms(1) P by (auto simp: store_items_def exec_simps intro!: all_items_intros)
next
  case (Call_expire k s)
  with assms show ?thesis
    by (auto simp: store_items_def exec_simps Let_def started_expire_def intro!: all_items_intros)
next
  case (Call_ttl k)
  with assms show ?thesis
    by (auto simp: store_items_def exec_simps Let_def intro!: all_items_intros split: option.splits)
qed (use assms in \<open>auto simp: store_items_def exec_simps counter_after_def Let_def
    intro!: all_items_intros\<close>)

lemma store_wf_perform: "call_ok c \<Longrightarrow> store_wf w \<Longrightarrow> store_wf (perform c w)"
  unfolding store_wf_items by (rule store_items_perform) auto

lemma store_wf_init [simp]: "store_wf (storage_init clk ord)"
  by (simp add: store_wf_def storage_init_def um.find_empty)

lemma store_items_perform_all:
  assumes "store_items P w" and "\<And>s. s \<noteq> umap_empty \<Longrightarrow> P s"
    and "\<And>k. Call_sadd k [] \<in> set cs \<Longrightarrow> P umap_empty"
    and "\<And>k d. Call_incrby k d \<in> set cs \<Longrightarrow> fits64 d"
  shows "store_items P (perform_all cs w)"
  using assms(1,3,4)
proof (induction cs arbitrary: w)
  case (Cons c cs)
  have "store_items P (perform c w)"
    using Cons.prems assms(2) by (intro store_items_perform) auto
  moreover have "store_items P (perform_all cs v)" if "store_items P v" for v
    using Cons.prems that by (intro Cons.IH) auto
  ultimately show ?case by simp
qed simp

text \<open>
  C9. The store invariant holds in every reachable state: after any sequence of calls with 64-bit
  numbers the four maps and the maps inside their hash and set items have distinct keys, and
  if no call was an \<open>sadd\<close> without members (the parser lets none through) no empty set is
  stored: \<open>srem\<close> removes a set it empties.
\<close>

theorem store_invariant:
  assumes "\<forall>k d. Call_incrby k d \<in> set cs \<longrightarrow> fits64 d"
  shows "maps_wf (perform_all cs (storage_init clk ord))
    \<and> ((\<forall>k. Call_sadd k [] \<notin> set cs) \<longrightarrow> store_wf (perform_all cs (storage_init clk ord)))"
proof -
  have "store_items P (storage_init clk ord)" for P
    by (simp add: store_items_def all_items_def storage_init_def um.find_empty)
  with assms show ?thesis
    unfolding maps_wf_items store_wf_items by (auto intro: store_items_perform_all)
qed

theorem store_invariant_witness:
  "store_wf (perform_all [Call_sadd ''s'' [''a'', ''b''], Call_srem ''s'' [''a'', ''b''], Call_ttl ''s'']
     (storage_init (\<lambda>n. 7) rev))"
  using store_invariant [of "[Call_sadd ''s'' [''a'', ''b''], Call_srem ''s'' [''a'', ''b''], Call_ttl ''s'']" "\<lambda>n. 7" rev]
  by simp

text \<open>Without members, \<open>sadd\<close> on a new key stores an empty set.\<close>

lemma sadd_without_members:
  "umap_find k (set_data (perform (Call_sadd k []) (storage_init clk ord))) = Some (new_item umap_empty)"
  by (simp add: exec_simps sadd_result_def stored_def umap_find_purge storage_init_def um.find_empty
      um.find_put new_item_def)

section \<open>Set operations\<close>

lemma live_srem_map:
  "live t (srem_map key s (purge t key m)) =
     (case live t m key of
        Some _ \<Rightarrow> if s = umap_empty then (live t m)(key := None) else (live t m)(key \<mapsto> s)
      | None \<Rightarrow> live t m)"
proof (cases "umap_find key (purge t key m)")
  case None
  then have "live t m key = None" using find_purge_live [of key t m] by simp
  with None show ?thesis by (simp add: srem_map_def live_purge)
next
  case (Some item)
  then have "live t m key = Some (contents item)" using find_purge_live [of key t m] by simp
  moreover have "live t (umap_put key (item\<lparr>contents := s\<rparr>) (purge t key m)) = (live t m)(key \<mapsto> s)"
    using live_put_stored [of t key s m] Some by simp
  ultimately show ?thesis using Some by (simp add: srem_map_def live_purge live_erase)
qed

definition members_at :: "int \<Rightarrow> world \<Rightarrow> string \<Rightarrow> string set" where
  "members_at t w key = (case set_view t w key of Some S \<Rightarrow> S | None \<Rightarrow> {})"

lemma members_found:
  "keyset (found umap_empty (umap_find key (purge t key (set_data w)))) = members_at t w key"
  by (simp add: found_purge members_at_def set_view_def split: option.splits)

lemma sadd_result_view:
  "keyset (fst (sadd_result key ms (purge t key (set_data w)))) = members_at t w key \<union> set ms
   \<and> snd (sadd_result key ms (purge t key (set_data w))) =
      (if set_view t w key = None then int (length ms) else int (card (set ms - members_at t w key)))"
proof (cases "umap_find key (purge t key (set_data w))")
  case None
  then have "live t (set_data w) key = None" using find_purge_live [of key t "set_data w"] by simp
  with None show ?thesis
    by (simp add: sadd_result_def sadd_new_spec members_at_def set_view_def)
next
  case (Some item)
  then have "live t (set_data w) key = Some (contents item)"
    using find_purge_live [of key t "set_data w"] by simp
  with Some show ?thesis
    by (simp add: sadd_result_def sadd_existing_spec members_at_def set_view_def)
qed

text \<open>
  C8. The set operations refine a map of sets, with \<open>S\<close> the live members of the key: \<open>sadd\<close> adds
  the members and returns how many were new if the set existed, but the length of the
  argument list, repetitions included, if it did not; \<open>srem\<close> removes members, returns how
  many it removed and drops the key when the set becomes empty; \<open>sismember\<close>, \<open>smembers\<close>
  and \<open>scard\<close> (on a well-formed store) read \<open>S\<close>.
\<close>

theorem sets_refine_map:
  assumes "store_wf w"
  shows "let T = set_time key w; S = members_at T w key in
      set_view T (perform (Call_sadd key ms) w) = (set_view T w)(key \<mapsto> S \<union> set ms)
    \<and> fst (run_state (storage_sadd key ms) w) =
        (if set_view T w key = None then int (length ms) else int (card (set ms - S)))
    \<and> members_at T (perform (Call_srem key ms) w) key = S - set ms
    \<and> fst (run_state (storage_srem key ms) w) = int (card (set ms \<inter> S))
    \<and> (S - set ms = {} \<longrightarrow> set_view T (perform (Call_srem key ms) w) key = None)
    \<and> fst (run_state (storage_sismember key m) w) = (m \<in> S)
    \<and> keyset (fst (run_state (storage_smembers key) w)) = S
    \<and> fst (run_state (storage_scard key) w) = int (card S)"
proof -
  let ?T = "set_time key w"
  let ?s = "found umap_empty (umap_find key (sets_at key w))"
  have "umap_wf ?s"
    using assms by (auto simp: store_wf_def found_def umap_find_purge split: option.splits)
  then have card: "umap_size ?s = card (members_at ?T w key)"
    by (simp add: umap_size_keys um.length_keys members_found)
  have mem: "(\<exists>y. umap_find m ?s = Some y) \<longleftrightarrow> m \<in> members_at ?T w key"
    unfolding members_found [symmetric] um.in_keys by simp
  have keys: "keyset (fst (srem_result key ms (sets_at key w))) = members_at ?T w key - set ms"
    "snd (srem_result key ms (sets_at key w)) = int (card (set ms \<inter> members_at ?T w key))"
    by (simp_all add: srem_result_def srem_loop_spec members_found)
  have empty: "fst (srem_result key ms (sets_at key w)) = umap_empty \<longleftrightarrow> members_at ?T w key - set ms = {}"
    by (simp flip: keyset_eq_empty add: keys)
  have srem: "set_view ?T (perform (Call_srem key ms) w) key =
      (if set_view ?T w key = None \<or> members_at ?T w key - set ms = {} then None
       else Some (members_at ?T w key - set ms))"
    by (simp add: exec_simps set_view_def live_srem_map empty keys split: option.splits)
  have "set_view ?T (perform (Call_sadd key ms) w) = (set_view ?T w)(key \<mapsto> members_at ?T w key \<union> set ms)"
    by (rule ext) (simp add: exec_simps set_view_def live_put_stored sadd_result_view)
  moreover have "members_at ?T (perform (Call_srem key ms) w) key = members_at ?T w key - set ms"
    by (auto simp: members_at_def srem split: option.splits)
  moreover have "members_at ?T w key - set ms = {} \<longrightarrow> set_view ?T (perform (Call_srem key ms) w) key = None"
    by (simp add: srem)
  ultimately show ?thesis
    by (simp add: Let_def exec_simps sadd_result_view keys card members_found mem)
qed

theorem sets_refine_map_witness:
  "fst (run_state (storage_sadd ''s'' [''a'', ''a'']) (storage_init (\<lambda>n. 7) rev)) = 2
   \<and> fst (run_state (storage_scard ''s'')
        (perform (Call_sadd ''s'' [''a'', ''a'']) (storage_init (\<lambda>n. 7) rev))) = 1"
proof -
  let ?i = "storage_init (\<lambda>n. 7) rev"
  let ?w = "perform (Call_sadd ''s'' [''a'', ''a'']) ?i"
  have wf: "store_wf ?i" "store_wf ?w" by (simp_all add: store_wf_perform)
  have T: "set_time ''s'' ?i = 7" "set_time ''s'' ?w = 7"
    by (simp_all add: set_time_def storage_init_def exec_simps)
  have none: "set_view 7 ?i ''s'' = None"
    by (simp add: set_view_def live_def storage_init_def um.find_empty)
  have "set_view 7 ?w ''s'' = Some {''a''}"
    using sets_refine_map [OF wf(1), of "''s''" "[''a'', ''a'']"] none
    by (simp add: Let_def T members_at_def)
  then have "members_at 7 ?w ''s'' = {''a''}" by (simp add: members_at_def)
  then have "fst (run_state (storage_scard ''s'') ?w) = 1"
    using sets_refine_map [OF wf(2), of "''s''" "[]"] T(2) unfolding Let_def by simp
  moreover have "fst (run_state (storage_sadd ''s'' [''a'', ''a'']) ?i) = 2"
    using sets_refine_map [OF wf(1), of "''s''" "[''a'', ''a'']"] none T(1) unfolding Let_def by simp
  ultimately show ?thesis by simp
qed

end
