(* ===== verification/Storage_Expiry.thy ===== *)
theory Storage_Expiry
  imports Storage_Spec
begin

text \<open>
  \<open>expire\<close> and \<open>ttl\<close>. Both act on the first keyspace, in the order strings, hashes, lists,
  sets, that stores the key; \<open>first_expiry\<close> is the expiry of that item. The lemmas give the
  deadline \<open>expire\<close> sets, the answer of \<open>ttl\<close>, and what the two make of each other.
\<close>

section \<open>The item that answers for a key\<close>

definition item_expiry :: "'v item \<Rightarrow> bool \<times> int" where
  "item_expiry item = (has_expiry item, expiry item)"

definition first_expiry :: "string \<Rightarrow> world \<Rightarrow> (bool \<times> int) option" where
  "first_expiry key w =
     (case umap_find key (string_data w) of Some item \<Rightarrow> Some (item_expiry item) | None \<Rightarrow>
     (case umap_find key (hash_data w) of Some item \<Rightarrow> Some (item_expiry item) | None \<Rightarrow>
     (case umap_find key (list_data w) of Some item \<Rightarrow> Some (item_expiry item) | None \<Rightarrow>
      map_option item_expiry (umap_find key (set_data w)))))"

lemma find_set_expiry:
  "umap_find key (set_expiry key e m) =
     map_option (\<lambda>item. item\<lparr>has_expiry := True, expiry := e\<rparr>) (umap_find key m)"
  by (simp add: set_expiry_def split: option.splits)

lemma item_expiry_set [simp]: "item_expiry (item\<lparr>has_expiry := True, expiry := e\<rparr>) = (True, e)"
  by (simp add: item_expiry_def)

lemma first_expiry_expire:
  "first_expiry key (perform (Call_expire key s) w) =
     (case first_expiry key w of None \<Rightarrow> None | Some _ \<Rightarrow> Some (True, deadline (clock w (reads w)) s))"
  by (auto simp: first_expiry_def exec_simps Let_def started_expire_def find_set_expiry
      split: option.splits)

lemma expire_result: "fst (run_state (storage_expire key s) w) = (first_expiry key w \<noteq> None)"
  by (auto simp: first_expiry_def exec_simps Let_def split: option.splits)

lemma expire_reads: "reads (perform (Call_expire key s) w) = Suc (reads w)"
  by (simp add: exec_simps Let_def started_expire_def)

lemma expire_clock: "clock (perform (Call_expire key s) w) = clock w"
  by (simp add: exec_simps Let_def started_expire_def)

text \<open>The answer of \<open>ttl\<close>, with the clock read at \<open>t\<close> and again at \<open>t'\<close>.\<close>

definition ttl_reply :: "int \<Rightarrow> int \<Rightarrow> (bool \<times> int) option \<Rightarrow> int" where
  "ttl_reply t t' e = (case e of
     None \<Rightarrow> - 2
   | Some (h, e) \<Rightarrow>
       if \<not> h then - 1 else if 0 < e \<and> e < t' then - 2
       else whole_units (wrap64 (e - t)) nanos_per_second)"

lemma ttl_value_reply: "ttl_value t t' item = ttl_reply t t' (Some (item_expiry item))"
  by (simp add: ttl_value_def ttl_reply_def item_expiry_def expired_at_def)

lemma ttl_is_reply:
  "fst (run_state (storage_ttl key) w) =
     ttl_reply (clock w (reads w)) (clock w (Suc (reads w))) (first_expiry key w)"
  by (auto simp: exec_simps Let_def first_expiry_def ttl_value_reply ttl_reply_def split: option.splits)

section \<open>\<open>ttl\<close>\<close>

text \<open>
  C14. \<open>ttl\<close> on a steady clock answers -2 for a key no keyspace stores and for one past an expiry
  after the epoch of the clock, -1 for a key without expiry, and otherwise, if their number
  fits 64 bits, the whole seconds that remain. For an expiry after the epoch these are
  rounded down and never negative. An expiry at or before the epoch never passes: the
  answer is then the seconds since, negative or 0, rounded towards 0.
\<close>

theorem ttl_counts_down:
  assumes "steady w" and "t = clock w (reads w)" and "t' = clock w (Suc (reads w))"
    and "r = fst (run_state (storage_ttl key) w)"
    and "\<forall>e. first_expiry key w = Some (True, e) \<longrightarrow> fits64 (e - t)"
  shows "case first_expiry key w of
      None \<Rightarrow> r = - 2
    | Some (h, e) \<Rightarrow>
        if \<not> h then r = - 1
        else if 0 < e \<and> e < t' then r = - 2
        else if 0 < e then 0 \<le> r \<and> r * 1000000000 \<le> e - t \<and> e - t < (r + 1) * 1000000000
        else e \<le> t \<longrightarrow> r \<le> 0 \<and> (r - 1) * 1000000000 < e - t \<and> e - t \<le> r * 1000000000"
proof (cases "first_expiry key w")
  case None
  then show ?thesis using assms by (simp add: ttl_is_reply ttl_reply_def)
next
  case (Some p)
  obtain h e where p: "p = (h, e)" by (cases p)
  have tt: "t \<le> t'" using assms(2,3) steadyD [OF assms(1)] by simp
  have r: "r = ttl_reply t t' (Some (h, e))"
    using assms(2-4) Some p by (simp add: ttl_is_reply)
  show ?thesis
  proof (cases "h \<and> \<not> (0 < e \<and> e < t')")
    case True
    then have seconds: "r = whole_units (e - t) nanos_per_second"
      using assms(5) Some p by (auto simp: r ttl_reply_def)
    have "0 \<le> r \<and> r * 1000000000 \<le> e - t \<and> e - t < (r + 1) * 1000000000" if "0 < e"
    proof -
      have "t \<le> e" using that True tt by simp
      then have "r = (e - t) div 1000000000" by (simp add: seconds nanos_per_second_def)
      with \<open>t \<le> e\<close> show ?thesis by auto
    qed
    moreover have "r \<le> 0 \<and> (r - 1) * 1000000000 < e - t \<and> e - t \<le> r * 1000000000" if "e \<le> t"
    proof -
      have "r = - ((t - e) div 1000000000)"
        using that by (cases "e = t") (simp_all add: seconds whole_units_def nanos_per_second_def)
      with that show ?thesis by auto
    qed
    ultimately show ?thesis using True by (simp add: Some p)
  next
    case False
    then show ?thesis by (auto simp: Some p r ttl_reply_def)
  qed
qed

theorem ttl_counts_down_witness:
  "fst (run_state (storage_ttl ''k'') (perform (Call_expire ''k'' 60)
      (perform (Call_set ''k'' ''v'') (storage_init (\<lambda>n. 7) rev)))) = 60
   \<and> fst (run_state (storage_ttl ''k'') (perform (Call_expire ''k'' (- 60))
      (perform (Call_set ''k'' ''v'') (storage_init (\<lambda>n. 7) rev)))) = - 60"
proof -
  let ?w = "\<lambda>s. perform (Call_expire ''k'' s) (perform (Call_set ''k'' ''v'') (storage_init (\<lambda>n. 7) rev))"
  have e: "first_expiry ''k'' (?w s) = Some (True, deadline 7 s)" for s
    by (simp add: first_expiry_expire) (simp add: exec_simps first_expiry_def item_expiry_def new_item_def storage_init_def)
  have d: "deadline 7 60 = 60000000007" "deadline 7 (- 60) = - 59999999993"
    by (simp_all add: deadline_def nanos_per_second_def fits64_def)
  have c: "clock (?w s) n = 7" for s n
    by (simp add: expire_clock) (simp add: exec_simps storage_init_def)
  then have st: "steady (?w s)" for s by (simp add: steady_def mono_def)
  note ttl = ttl_counts_down [OF st refl refl refl, of "''k''", unfolded e c, simplified]
  show ?thesis using ttl [of 60] ttl [of "- 60"] unfolding d by (simp add: fits64_def)
qed

section \<open>\<open>expire\<close>\<close>

text \<open>
  C15. \<open>expire\<close> then \<open>ttl\<close>, on a steady clock with positive readings and for a positive number of
  seconds whose deadline fits 64 bits of nanoseconds: for a key that some keyspace stores,
  \<open>expire\<close> returns true and the following \<open>ttl\<close> answers a number between 0 and those seconds,
  or -2 once the deadline has passed; exactly the seconds when the clock has not moved. For
  a key that none stores \<open>expire\<close> returns false and \<open>ttl\<close> answers -2.
\<close>

theorem expire_then_ttl:
  assumes "steady w" and "t = clock w (reads w)" and "0 < t" and "0 < s"
    and "fits64 (t + s * 1000000000)"
    and "r = fst (run_state (storage_ttl key) (perform (Call_expire key s) w))"
  shows "if first_expiry key w = None then \<not> fst (run_state (storage_expire key s) w) \<and> r = - 2
    else fst (run_state (storage_expire key s) w)
    \<and> (if t + s * 1000000000 < clock w (Suc (Suc (reads w))) then r = - 2 else 0 \<le> r \<and> r \<le> s)
    \<and> (clock w (Suc (Suc (reads w))) = t \<longrightarrow> r = s)"
proof (cases "first_expiry key w = None")
  case True
  then show ?thesis
    using assms(6) by (simp add: expire_result ttl_is_reply first_expiry_expire ttl_reply_def)
next
  case False
  let ?D = "t + s * 1000000000" and ?t1 = "clock w (Suc (reads w))" and ?t2 = "clock w (Suc (Suc (reads w)))"
  have ts: "t \<le> ?t1" "?t1 \<le> ?t2" using assms(2) steadyD [OF assms(1)] by simp_all
  have "fits64 (s * 1000000000)" using assms(3,4,5) by (simp add: fits64_def)
  with assms(5) have D: "deadline t s = ?D"
    by (simp add: deadline_def nanos_per_second_def)
  have r: "r = ttl_reply ?t1 ?t2 (Some (True, ?D))"
    using assms(2,6) False D by (auto
        simp: ttl_is_reply first_expiry_expire expire_reads expire_clock split: option.splits)
  have "0 \<le> r \<and> r \<le> s" if "\<not> ?D < ?t2"
  proof -
    have "fits64 (?D - ?t1)" using that ts assms(3,5) by (simp add: fits64_def)
    with that ts have "r = (?D - ?t1) div 1000000000"
      by (simp add: r ttl_reply_def nanos_per_second_def)
    moreover have "(?D - ?t1) div 1000000000 \<le> (s * 1000000000) div 1000000000"
      using ts by (intro zdiv_mono1) auto
    ultimately show ?thesis using that ts by simp
  qed
  moreover have "r = - 2" if "?D < ?t2"
    using that assms(3,4) by (simp add: r ttl_reply_def)
  moreover have "r = s" if "?t2 = t"
  proof -
    have "?t1 = t" using that ts by simp
    then have "fits64 (?D - ?t1)" using assms(3,4,5) by (simp add: fits64_def)
    with that \<open>?t1 = t\<close> show ?thesis
      using assms(4) by (simp add: r ttl_reply_def nanos_per_second_def)
  qed
  ultimately show ?thesis using False by (auto simp: expire_result)
qed

theorem expire_then_ttl_witness:
  "fst (run_state (storage_ttl ''k'') (perform (Call_expire ''k'' 60)
     (perform (Call_lpush ''k'' [''v'']) (storage_init (\<lambda>n. 7) rev)))) = 60"
proof -
  let ?w = "perform (Call_lpush ''k'' [''v'']) (storage_init (\<lambda>n. 7) rev)"
  have "first_expiry ''k'' ?w \<noteq> None"
    by (simp add: exec_simps first_expiry_def split: option.splits)
  moreover have "steady ?w" "clock ?w n = 7" for n
    by (simp_all add: steady_def storage_init_def mono_def exec_simps)
  ultimately show ?thesis
    using expire_then_ttl [of ?w 7 60 _ "''k''"] by (simp add: fits64_def)
qed

text \<open>
  The deadline: after \<open>expire\<close> on a stored string the value is live until its deadline has
  passed, and not afterwards. A deadline at or before the epoch of the clock (a large
  negative number of seconds) never passes: \<open>is_expired\<close> asks for a positive expiry.
\<close>

lemma expire_sets_lifetime:
  assumes "umap_find key (string_data w) = Some item"
  shows "string_view t (perform (Call_expire key s) w) key =
    (if 0 < deadline (clock w (reads w)) s \<and> deadline (clock w (reads w)) s < t then None
     else Some (contents item))"
  using assms
  by (simp add: exec_simps Let_def started_expire_def string_view_def live_def find_set_expiry expired_at_def)

text \<open>
  \<open>expire\<close> does not sweep first: on a string that has expired but is still stored it returns
  true, and the value that \<open>get\<close> would no longer have returned is live again.
\<close>

lemma expire_revives:
  assumes "umap_find key (string_data w) = Some item" and "expired_at T item"
    and "T = clock w (reads w)" and "T \<le> deadline T s"
  shows "fst (run_state (storage_get key) w) = None
    \<and> fst (run_state (storage_expire key s) w)
    \<and> string_view T (perform (Call_expire key s) w) key = Some (contents item)"
  using assms
  by (simp add: expire_result first_expiry_def exec_simps Let_def started_expire_def
      string_view_def live_def find_set_expiry expired_at_def umap_find_purge string_time_def)

end
