(* ===== verification/Storage_Locking.thy ===== *)
theory Storage_Locking
  imports Storage_Spec
begin

text \<open>
  The lock discipline of \<open>Storage\<close>, read off the events its calls record (theory \<open>Locks\<close>).
  Every call that sweeps does so under the lock of its own keyspace and the sweep takes that
  lock once more; \<open>expire\<close>, and \<open>ttl\<close> on keys that have not expired, hold one lock at a time.
\<close>

section \<open>The events of a call\<close>

definition call_events :: "call \<Rightarrow> world \<Rightarrow> event list" where
  "call_events c w = drop (length (trace w)) (trace (perform c w))"

text \<open>The mutex a sweeping call holds while it sweeps.\<close>

primrec sweeps_under :: "call \<Rightarrow> mutex option" where
  "sweeps_under Call_ping = None"
| "sweeps_under (Call_set k v) = Some String_mutex"
| "sweeps_under (Call_get k) = Some String_mutex"
| "sweeps_under (Call_incr k) = Some String_mutex"
| "sweeps_under (Call_decr k) = Some String_mutex"
| "sweeps_under (Call_incrby k d) = Some String_mutex"
| "sweeps_under (Call_hset k f v) = Some Hash_mutex"
| "sweeps_under (Call_hget k f) = Some Hash_mutex"
| "sweeps_under (Call_hgetall k) = Some Hash_mutex"
| "sweeps_under (Call_lpush k vs) = Some List_mutex"
| "sweeps_under (Call_rpop k) = Some List_mutex"
| "sweeps_under (Call_lrange k i j) = Some List_mutex"
| "sweeps_under (Call_sadd k ms) = Some Set_mutex"
| "sweeps_under (Call_srem k ms) = Some Set_mutex"
| "sweeps_under (Call_sismember k m) = Some Set_mutex"
| "sweeps_under (Call_smembers k) = Some Set_mutex"
| "sweeps_under (Call_scard k) = Some Set_mutex"
| "sweeps_under (Call_expire k s) = None"
| "sweeps_under (Call_ttl k) = None"

lemma call_events_sweeping:
  assumes "sweeps_under c = Some m" and "call_ok c"
  obtains key mid where
    "call_events c w = write_events m key mid w \<and> m \<in> writes c \<or>
     call_events c w = read_events m key w \<and> writes c = {}"
  using assms
  by (cases c) (auto simp: call_events_def exec_simps counter_after_def Let_def)

section \<open>Taking the same lock again\<close>

lemma sweep_events_mutex:
  "m \<noteq> n \<Longrightarrow> Unlock m \<notin> set (sweep_events n t key d) \<and> Unlock_shared m \<notin> set (sweep_events n t key d)"
  by (auto simp: sweep_events_def split: option.splits)

lemma sweep_events_Cons: "\<exists>es. sweep_events m t key d = Lock_shared m # es"
  by (simp add: sweep_events_def)

lemma sweep_trace_relocks:
  assumes "m \<noteq> Nodes_mutex"
  obtains pre post where "sweep_trace key w = pre @ Lock_shared m # post"
    "Unlock m \<notin> set pre" "Unlock_shared m \<notin> set pre"
proof (cases m)
  case String_mutex
  then show ?thesis using that [of "[]"] by (simp add: sweep_trace_def sweep_events_def)
next
  case Hash_mutex
  then show ?thesis
    using that [of "sweep_events String_mutex (string_time key w) key (string_data w)"]
    by (simp add: sweep_trace_def sweep_events_mutex sweep_events_def [of Hash_mutex])
next
  case List_mutex
  then show ?thesis
    using that [of "sweep_events String_mutex (string_time key w) key (string_data w)
      @ sweep_events Hash_mutex (hash_time key w) key (hash_data w)"]
    by (simp add: sweep_trace_def sweep_events_mutex sweep_events_def [of List_mutex])
next
  case Set_mutex
  then show ?thesis
    using that [of "sweep_events String_mutex (string_time key w) key (string_data w)
      @ sweep_events Hash_mutex (hash_time key w) key (hash_data w)
      @ sweep_events List_mutex (list_time key w) key (list_data w)"]
    by (simp add: sweep_trace_def sweep_events_mutex sweep_events_def [of Set_mutex])
qed (use assms in simp)

lemma sweep_under_lock_unlawful:
  assumes "m \<noteq> Nodes_mutex"
  shows "run_events [(m, md)] (sweep_trace key w) = None"
proof -
  obtain pre post where "sweep_trace key w = pre @ Lock_shared m # post"
    "Unlock m \<notin> set pre" "Unlock_shared m \<notin> set pre"
    using assms by (rule sweep_trace_relocks)
  moreover from calculation(2,3) have "run_events [(m, md)] (pre @ [Lock_shared m]) = None"
    by (intro relock_unlawful [where m = m and md = md]) auto
  ultimately show ?thesis
    using run_events_append [of "[(m, md)]" "pre @ [Lock_shared m]" post] by simp
qed

lemma sweeps_under_not_nodes: "sweeps_under c = Some m \<Longrightarrow> m \<noteq> Nodes_mutex"
  by (cases c) auto

text \<open>
  C17. Every call but \<open>ping\<close>, \<open>expire\<close> and \<open>ttl\<close> runs into undefined behaviour in every state:
  it holds the mutex of its keyspace when \<open>remove_expired\<close> locks that same mutex shared,
  which the standard forbids for a thread that already owns it.
\<close>

theorem sweeping_calls_relock:
  assumes "sweeps_under c = Some m" and "call_ok c"
  shows "run_events [] (call_events c w) = None"
proof -
  obtain key mid where "call_events c w = write_events m key mid w \<or> call_events c w = read_events m key w"
    using call_events_sweeping [OF assms] by metis
  then show ?thesis
    using sweep_under_lock_unlawful [OF sweeps_under_not_nodes [OF assms(1)]]
    by (auto simp: write_events_def read_events_def)
qed

theorem sweeping_calls_relock_witness:
  "run_events [] (call_events (Call_set ''k'' ''v'') (storage_init (\<lambda>n. 7) rev)) = None
   \<and> run_events [] (call_events (Call_get ''k'') (storage_init (\<lambda>n. 7) rev)) = None"
  using sweeping_calls_relock [of "Call_set ''k'' ''v''" String_mutex]
    sweeping_calls_relock [of "Call_get ''k''" String_mutex] by simp

lemma write_events_ask_again:
  assumes "m \<noteq> Nodes_mutex"
  shows "\<exists>es. write_events m key mid w = Lock m # es \<and> asks_again m es"
proof -
  obtain pre post where "sweep_trace key w = pre @ Lock_shared m # post" "Unlock m \<notin> set pre"
    using sweep_trace_relocks [OF assms, of key w] by metis
  then have "asks_again m (sweep_trace key w @ mid @ [Unlock m])"
    unfolding asks_again_def
    by (intro exI [of _ pre] exI [of _ "Lock_shared m"] exI [of _ "post @ mid @ [Unlock m]"]) simp
  then show ?thesis by (simp add: write_events_def)
qed

text \<open>
  C18. A storing call never returns on a blocking mutex: a thread that runs \<open>set\<close>, \<open>incr\<close>, \<open>decr\<close>,
  \<open>incrby\<close>, \<open>hset\<close>, \<open>lpush\<close>, \<open>rpop\<close>, \<open>sadd\<close> or \<open>srem\<close> as its next call still has events to run in
  every state the threads of the server can reach, whatever the other threads do, because it
  waits for a mutex it owns itself.
\<close>

theorem storing_call_never_returns:
  assumes "sweeps_under c = Some m" and "call_ok c" and "writes c \<noteq> {}"
    and "ps t = call_events c w @ rest" and "lock_reachable ps s"
  shows "prog s t \<noteq> []"
proof -
  obtain key mid where "call_events c w = write_events m key mid w"
    using call_events_sweeping [OF assms(1,2)] assms(3) by metis
  then obtain es where es: "call_events c w = Lock m # es" "asks_again m es"
    using write_events_ask_again [OF sweeps_under_not_nodes [OF assms(1)]] by metis
  then have "asks_again m (es @ rest)" by (intro asks_again_append)
  with es assms(4,5) show ?thesis
    using relock_never_finishes [of ps s t m "es @ rest"] by simp
qed

theorem storing_call_never_returns_witness:
  "prog (lock_init (\<lambda>t. call_events (Call_set ''k'' ''v'') (storage_init (\<lambda>n. 7) rev))) 0 \<noteq> []"
  using storing_call_never_returns [of "Call_set ''k'' ''v''" String_mutex
      "\<lambda>t. call_events (Call_set ''k'' ''v'') (storage_init (\<lambda>n. 7) rev)" 0
      "storage_init (\<lambda>n. 7) rev" "[]", OF _ _ _ _ lock_reachable.start]
  by simp

section \<open>Calls that hold one lock at a time\<close>

text \<open>The item \<open>ttl\<close> finds has expired by the reading that \<open>is_expired\<close> makes.\<close>

definition ttl_erases :: "string \<Rightarrow> world \<Rightarrow> bool" where
  "ttl_erases key w = (let t' = clock w (Suc (reads w)) in
     case umap_find key (string_data w) of Some item \<Rightarrow> expired_at t' item | None \<Rightarrow>
     (case umap_find key (hash_data w) of Some item \<Rightarrow> expired_at t' item | None \<Rightarrow>
     (case umap_find key (list_data w) of Some item \<Rightarrow> expired_at t' item | None \<Rightarrow>
     (case umap_find key (set_data w) of Some item \<Rightarrow> expired_at t' item | None \<Rightarrow> False))))"

lemma flat_pairs [simp]: "flat (lock_pair m)" "flat (shared_pair m)" "flat (lock_pair m @ es) = flat es"
  "flat (shared_pair m @ es) = flat es"
  by (simp_all add: lock_pair_def shared_pair_def)

lemma overflow_events_empty: "overflow_events n = [] \<longleftrightarrow> Signed_overflow \<notin> set (overflow_events n)"
  by (simp add: overflow_events_def)

lemma ttl_events_flat:
  assumes "Signed_overflow \<notin> set (ttl_events m t t' key d)"
    and "\<not> (case umap_find key d of Some item \<Rightarrow> expired_at t' item | None \<Rightarrow> False)"
  shows "flat (ttl_events m t t' key d)"
  using assms by (auto simp: ttl_events_def overflow_events_def split: option.splits if_splits)

definition one_lock_call :: "call \<Rightarrow> world \<Rightarrow> bool" where
  "one_lock_call c w \<longleftrightarrow> sweeps_under c = None \<and> Signed_overflow \<notin> set (call_events c w)
     \<and> (\<forall>key. c = Call_ttl key \<longrightarrow> \<not> ttl_erases key w)"

lemma one_lock_call_flat:
  assumes "one_lock_call c w"
  shows "flat (call_events c w)"
proof (cases c)
  case Call_ping
  then show ?thesis by (simp add: call_events_def exec_simps)
next
  case (Call_expire k s)
  then have "deadline_events (clock w (reads w)) s = []"
    using assms by (auto simp: one_lock_call_def call_events_def exec_simps Let_def
        started_expire_def deadline_events_def overflow_events_def split: if_splits)
  then show ?thesis
    by (simp add: Call_expire call_events_def exec_simps Let_def started_expire_def)
next
  case (Call_ttl k)
  with assms show ?thesis
    by (auto simp: one_lock_call_def call_events_def exec_simps Let_def ttl_erases_def
        split: option.splits intro!: ttl_events_flat)
qed (use assms in \<open>simp_all add: one_lock_call_def\<close>)

text \<open>
  \<open>ping\<close>, \<open>expire\<close> and \<open>ttl\<close> keep the lock discipline when their arithmetic does not overflow
  and \<open>ttl\<close> finds no expired item: they take one mutex at a time, release it before the next
  one and end owning nothing.
\<close>

lemma flat_calls:
  assumes "sweeps_under c = None" and "Signed_overflow \<notin> set (call_events c w)"
    and "\<forall>key. c = Call_ttl key \<longrightarrow> \<not> ttl_erases key w"
  shows "flat (call_events c w) \<and> lawful (call_events c w)"
  using one_lock_call_flat [of c w] flat_lawful assms by (simp add: one_lock_call_def)

text \<open>
  C19. Threads that make such calls, each any number of them, always finish: no schedule of
  them gets stuck before all the calls have returned, and every schedule is finite, of as
  many steps as there are lock calls to make.
\<close>

theorem flat_calls_finish:
  assumes "\<forall>t. \<forall>(c, w) \<in> set (cs t). sweeps_under c = None \<and> Signed_overflow \<notin> set (call_events c w)
      \<and> (\<forall>key. c = Call_ttl key \<longrightarrow> \<not> ttl_erases key w)"
    and "\<forall>t \<ge> N. cs t = []"
    and "ps = (\<lambda>t. concat (map (\<lambda>(c, w). call_events c w) (cs t)))"
    and "(any_step ^^ n) (lock_init ps) s"
  shows "n + (\<Sum>t < N. length (prog s t)) = (\<Sum>t < N. length (ps t))
    \<and> ((\<exists>s'. any_step s s') \<or> (\<forall>t. prog s t = []))"
proof -
  have flat: "flat (concat (map (\<lambda>(c, w). call_events c w) xs))"
    if "\<forall>(c, w) \<in> set xs. one_lock_call c w" for xs
    using that by (induction xs) (auto intro: flat_append one_lock_call_flat)
  have "flat (ps t)" for t
    using assms(1) unfolding assms(3) one_lock_call_def [symmetric] by (blast intro: flat)
  moreover have "\<forall>t \<ge> N. ps t = []" using assms(2) by (simp add: assms(3))
  ultimately show ?thesis
    using flat_finish [of ps N n s] assms(4) by (auto simp: work_left_def)
qed

text \<open>Two threads that set an expiry on the same key at the same time.\<close>

theorem flat_calls_finish_witness:
  "\<exists>s'. any_step (lock_init (\<lambda>t. if t < 2 then call_events (Call_expire ''k'' 60) (storage_init (\<lambda>n. 7) rev) else [])) s'"
proof -
  let ?c = "(Call_expire ''k'' 60, storage_init (\<lambda>n. 7) rev)"
  let ?cs = "\<lambda>t :: nat. if t < 2 then [?c] else []"
  let ?es = "call_events (Call_expire ''k'' 60) (storage_init (\<lambda>n. 7) rev)"
  let ?ps = "\<lambda>t :: nat. if t < 2 then ?es else []"
  have es: "?es = lock_pair String_mutex @ lock_pair Hash_mutex @ lock_pair List_mutex @ lock_pair Set_mutex"
    by (simp add: call_events_def exec_simps Let_def started_expire_def storage_init_def um.find_empty
        deadline_events_def overflow_events_def nanos_per_second_def fits64_def)
  then have ok: "\<forall>t. \<forall>(c, w) \<in> set (?cs t). sweeps_under c = None \<and> Signed_overflow \<notin> set (call_events c w)
      \<and> (\<forall>key. c = Call_ttl key \<longrightarrow> \<not> ttl_erases key w)"
    by (simp add: lock_pair_def)
  have ps: "?ps = (\<lambda>t. concat (map (\<lambda>(c, w). call_events c w) (?cs t)))" by (rule ext) simp
  have "(any_step ^^ 0) (lock_init ?ps) (lock_init ?ps)" by simp
  from flat_calls_finish [OF ok _ ps this, of 2]
  have "(\<exists>s'. any_step (lock_init ?ps) s') \<or> prog (lock_init ?ps) 0 = []" by auto
  moreover have "?es \<noteq> []" by (simp only: es) (simp add: lock_pair_def)
  then have "prog (lock_init ?ps) 0 \<noteq> []" by (simp add: lock_init_def)
  ultimately show ?thesis by simp
qed

text \<open>
  \<open>ttl\<close> on an expired key breaks the discipline: it calls \<open>unlock()\<close> on a mutex it owns in
  shared mode only.
\<close>

lemma ttl_expired_unlawful:
  assumes "ttl_erases key w"
  shows "run_events [] (call_events (Call_ttl key) w) = None"
  using assms
  by (auto simp: ttl_erases_def call_events_def exec_simps Let_def ttl_events_def shared_pair_def
      expired_at_def split: option.splits)

end
