(* ===== verification/Storage_Local.thy ===== *)
theory Storage_Local
  imports Storage_Sets
begin

text \<open>
  Locality: what a call of \<open>Storage\<close> answers and leaves under its key depends on nothing but
  what is stored under that key and the clock. The keys are independent of each other, and
  \<open>expire\<close>, the one operation that locks its four maps one after the other, can be
  interleaved with calls on other keys without effect, but not with calls on its own.
\<close>

section \<open>Answers\<close>

datatype call_result =
    Yes_no bool
  | Number int
  | Value_of "string option"
  | Elements "string list"
  | Fields "(string, string) umap"
  | Members "(string, bool) umap"

primrec answer :: "call \<Rightarrow> world \<Rightarrow> call_result" where
  "answer Call_ping w = Yes_no (fst (run_state storage_ping w))"
| "answer (Call_set k v) w = Yes_no (fst (run_state (storage_set k v) w))"
| "answer (Call_get k) w = Value_of (fst (run_state (storage_get k) w))"
| "answer (Call_incr k) w = Number (fst (run_state (storage_incr k) w))"
| "answer (Call_decr k) w = Number (fst (run_state (storage_decr k) w))"
| "answer (Call_incrby k d) w = Number (fst (run_state (storage_incrby k d) w))"
| "answer (Call_hset k f v) w = Yes_no (fst (run_state (storage_hset k f v) w))"
| "answer (Call_hget k f) w = Value_of (fst (run_state (storage_hget k f) w))"
| "answer (Call_hgetall k) w = Fields (fst (run_state (storage_hgetall k) w))"
| "answer (Call_lpush k vs) w = Number (fst (run_state (storage_lpush k vs) w))"
| "answer (Call_rpop k) w = Value_of (fst (run_state (storage_rpop k) w))"
| "answer (Call_lrange k i j) w = Elements (fst (run_state (storage_lrange k i j) w))"
| "answer (Call_sadd k ms) w = Number (fst (run_state (storage_sadd k ms) w))"
| "answer (Call_srem k ms) w = Number (fst (run_state (storage_srem k ms) w))"
| "answer (Call_sismember k m) w = Yes_no (fst (run_state (storage_sismember k m) w))"
| "answer (Call_smembers k) w = Members (fst (run_state (storage_smembers k) w))"
| "answer (Call_scard k) w = Number (fst (run_state (storage_scard k) w))"
| "answer (Call_expire k s) w = Yes_no (fst (run_state (storage_expire k s) w))"
| "answer (Call_ttl k) w = Number (fst (run_state (storage_ttl k) w))"

declare answer.simps [simp del, exec_simps]

section \<open>Locality of one call\<close>

text \<open>Two worlds that hold the same under a key and will read the same times.\<close>

definition same_future :: "world \<Rightarrow> world \<Rightarrow> bool" where
  "same_future w w' \<longleftrightarrow> (\<forall>i. clock w' (reads w' + i) = clock w (reads w + i))"

definition alike :: "string \<Rightarrow> world \<Rightarrow> world \<Rightarrow> bool" where
  "alike key w w' \<longleftrightarrow> same_under key w w' \<and> same_future w w'"

lemma same_futureD: "same_future w w' \<Longrightarrow> clock w' (reads w' + i) = clock w (reads w + i)"
  by (simp add: same_future_def)

lemma same_future_now: "same_future w w' \<Longrightarrow> clock w' (reads w') = clock w (reads w)"
  using same_futureD [of w w' 0] by simp

lemma same_future_next: "same_future w w' \<Longrightarrow> clock w' (Suc (reads w')) = clock w (Suc (reads w))"
  using same_futureD [of w w' 1] by simp

lemma same_future_later:
  assumes "same_future w w'" and "clock v = clock w" and "clock v' = clock w'"
    and "reads v = reads w + n" and "reads v' = reads w' + n"
  shows "same_future v v'"
  using same_futureD [OF assms(1), of "n + i" for i] assms(2-5) by (simp add: same_future_def add.assoc)

text \<open>Everything the closed forms read of a map is the item under the key.\<close>

lemma find_set_expiry_item:
  "umap_find key (set_expiry key e m) =
     map_option (\<lambda>item. item\<lparr>has_expiry := True, expiry := e\<rparr>) (umap_find key m)"
  by (simp add: set_expiry_def um.find_put split: option.splits)

lemma find_popped:
  "umap_find key (popped key m) =
     map_option (\<lambda>item. item\<lparr>contents := butlast (contents item)\<rparr>) (umap_find key m)"
  by (auto simp: popped_def um.find_put split: option.splits)

lemma find_srem_map:
  "umap_find key (srem_map key s m) =
     (if s = umap_empty then None else map_option (\<lambda>item. item\<lparr>contents := s\<rparr>) (umap_find key m))"
  by (simp add: srem_map_def um.find_put um.find_erase split: option.splits)

lemmas found_forms = find_set_expiry_item find_popped find_srem_map counter_sum_def counter_item_def
  sadd_result_def srem_result_def um.find_put

lemma same_underD:
  assumes "same_under key w w'"
  shows "umap_find key (string_data w') = umap_find key (string_data w)"
    "umap_find key (hash_data w') = umap_find key (hash_data w)"
    "umap_find key (list_data w') = umap_find key (list_data w)"
    "umap_find key (set_data w') = umap_find key (set_data w)"
  using assms by (simp_all add: same_under_def)

lemma alike_looks:
  assumes "same_under key w w'"
  shows "looks key (string_data w') = looks key (string_data w)"
    "looks key (hash_data w') = looks key (hash_data w)" "looks key (list_data w') = looks key (list_data w)"
    "looks key (set_data w') = looks key (set_data w)"
  by (simp_all add: looks_def same_underD [OF assms])

lemma alike_times:
  assumes "same_under key w w'" and "same_future w w'"
  shows "string_time key w' = string_time key w" "hash_time key w' = hash_time key w"
    "list_time key w' = list_time key w" "set_time key w' = set_time key w"
    "all_looks key w' = all_looks key w"
  by (simp_all only: time_defs all_looks_def alike_looks [OF assms(1)] add.assoc
      same_futureD [OF assms(2)] same_future_now [OF assms(2)])

lemma alike_at:
  assumes "same_under key w w'" and "same_future w w'"
  shows "umap_find key (purge (string_time key w') key (string_data w'))
      = umap_find key (purge (string_time key w) key (string_data w))"
    "umap_find key (hashes_at key w') = umap_find key (hashes_at key w)"
    "umap_find key (lists_at key w') = umap_find key (lists_at key w)"
    "umap_find key (sets_at key w') = umap_find key (sets_at key w)"
  by (simp_all only: alike_times [OF assms] umap_find_purge same_underD [OF assms(1)])

lemma alike_after:
  assumes "same_under key w w'" and "same_future w w'"
  shows "same_future (after key es w) (after key es' w')"
  using assms(2)
  by (rule same_future_later [where n = "all_looks key w"]) (simp_all add: alike_times(5) [OF assms])

lemma same_future_update [simp]:
  "same_future (w\<lparr>string_data := s\<rparr>) w' = same_future w w'" "same_future w (w'\<lparr>string_data := s\<rparr>) = same_future w w'"
  "same_future (w\<lparr>hash_data := h\<rparr>) w' = same_future w w'" "same_future w (w'\<lparr>hash_data := h\<rparr>) = same_future w w'"
  "same_future (w\<lparr>list_data := l\<rparr>) w' = same_future w w'" "same_future w (w'\<lparr>list_data := l\<rparr>) = same_future w w'"
  "same_future (w\<lparr>set_data := m\<rparr>) w' = same_future w w'" "same_future w (w'\<lparr>set_data := m\<rparr>) = same_future w w'"
  by (simp_all add: same_future_def)

text \<open>The operations that sweep first.\<close>

lemma perform_local_sweeping:
  assumes "call_ok c" and "call_key c = Some key" and "alike key w w'"
    and "\<nexists>s. c = Call_expire key s" and "c \<noteq> Call_ttl key"
  shows "answer c w' = answer c w \<and> alike key (perform c w) (perform c w')"
proof -
  have alike: "same_under key w w'" "same_future w w'" using assms(3) by (simp_all add: alike_def)
  note facts = alike_at [OF alike] alike_after [OF alike]
  show ?thesis
    using assms(1,2,4,5)
    by (cases c)
      (simp_all add: exec_simps alike_def same_under_def found_forms counter_after_def Let_def facts)
qed

lemma perform_local_expire:
  assumes "alike key w w'"
  shows "answer (Call_expire key s) w' = answer (Call_expire key s) w
    \<and> alike key (perform (Call_expire key s) w) (perform (Call_expire key s) w')"
proof -
  have future: "same_future w w'" and under: "same_under key w w'" using assms by (simp_all add: alike_def)
  have "same_future (perform (Call_expire key s) w) (perform (Call_expire key s) w')"
    using future
    by (rule same_future_later [where n = 1]) (simp_all add: exec_simps started_expire_def Let_def)
  then show ?thesis
    by (simp add: exec_simps alike_def same_under_def started_expire_def found_forms Let_def
        same_underD [OF under] same_future_now [OF future])
qed

text \<open>\<open>ttl\<close> reads the clock on entry and once more for the item it finds.\<close>

definition ttl_looks :: "string \<Rightarrow> world \<Rightarrow> nat" where
  "ttl_looks key w = 1 + (if umap_find key (string_data w) \<noteq> None then looks key (string_data w)
     else if umap_find key (hash_data w) \<noteq> None then looks key (hash_data w)
     else if umap_find key (list_data w) \<noteq> None then looks key (list_data w)
     else looks key (set_data w))"

lemma perform_local_ttl:
  assumes "alike key w w'"
  shows "answer (Call_ttl key) w' = answer (Call_ttl key) w
    \<and> alike key (perform (Call_ttl key) w) (perform (Call_ttl key) w')"
proof -
  have future: "same_future w w'" and under: "same_under key w w'" using assms by (simp_all add: alike_def)
  have reads: "reads (perform (Call_ttl key) v) = reads v + ttl_looks key v" for v
    by (simp add: exec_simps ttl_looks_def Let_def ttl_absent split: option.splits)
  have "ttl_looks key w' = ttl_looks key w"
    by (simp only: ttl_looks_def same_underD [OF under] alike_looks [OF under])
  then have "same_future (perform (Call_ttl key) w) (perform (Call_ttl key) w')"
    by (intro same_future_later [OF future, where n = "ttl_looks key w"]) (simp_all add: reads perform_clock)
  then show ?thesis
    by (simp add: exec_simps alike_def same_under_def umap_find_purge Let_def same_underD [OF under]
        same_future_now [OF future] same_future_next [OF future] split: option.split)
qed

lemma perform_local:
  assumes "call_ok c" and "call_key c = Some key" and "alike key w w'"
  shows "answer c w' = answer c w \<and> alike key (perform c w) (perform c w')"
proof (cases "(\<exists>s. c = Call_expire key s) \<or> c = Call_ttl key")
  case True
  with assms(3) show ?thesis using perform_local_expire perform_local_ttl by blast
next
  case False
  with assms show ?thesis by (intro perform_local_sweeping) auto
qed

section \<open>The keys are independent\<close>

text \<open>The answers to the calls on one key, in a sequence of calls.\<close>

primrec answers_for :: "string \<Rightarrow> call list \<Rightarrow> world \<Rightarrow> call_result list" where
  "answers_for key [] w = []"
| "answers_for key (c # cs) w =
     (if call_key c = Some key then [answer c w] else []) @ answers_for key cs (perform c w)"

lemma same_under_refl [simp]: "same_under key w w"
  by (simp add: same_under_def)

lemma same_under_sym: "same_under key w w' \<Longrightarrow> same_under key w' w"
  by (simp add: same_under_def)

lemma same_under_trans: "same_under key a b \<Longrightarrow> same_under key b c \<Longrightarrow> same_under key a c"
  by (simp add: same_under_def)

lemma keys_independent_from:
  assumes "\<forall>c \<in> set cs. call_ok c" and "same_under key w w'"
    and "\<forall>n. clock w n = t" and "\<forall>n. clock w' n = t"
  shows "answers_for key (filter (\<lambda>c. call_key c = Some key) cs) w' = answers_for key cs w
    \<and> same_under key (perform_all cs w) (perform_all (filter (\<lambda>c. call_key c = Some key) cs) w')"
  using assms
proof (induction cs arbitrary: w w')
  case (Cons c cs)
  then have clocks: "\<forall>n. clock (perform c w) n = t" "\<forall>n. clock (perform c w') n = t"
    by (simp_all add: perform_clock)
  show ?case
  proof (cases "call_key c = Some key")
    case True
    have "alike key w w'" using Cons.prems by (simp add: alike_def same_future_def)
    with True Cons.prems(1) have "answer c w' = answer c w" "same_under key (perform c w) (perform c w')"
      using perform_local [of c key w w'] by (simp_all add: alike_def)
    with True show ?thesis using Cons.IH [OF _ _ clocks] Cons.prems(1) by simp
  next
    case False
    have "same_under key (perform c w) w'"
      using Cons.prems(1,2) False perform_isolated [of c key w]
      by (auto intro: same_under_trans same_under_sym)
    with False show ?thesis using Cons.IH [OF _ _ clocks(1) Cons.prems(4)] Cons.prems(1) by simp
  qed
qed simp

text \<open>
  C4. The keys are independent: at an instant (no time passes during the calls), the answers to
  the calls on a key, and what is stored under it in the end, are those of these calls
  alone, as if the other keys and the calls on them did not exist.
\<close>

theorem keys_independent:
  assumes "\<forall>c \<in> set cs. call_ok c" and "\<forall>n. clock w n = t"
  shows "answers_for key cs w = answers_for key (filter (\<lambda>c. call_key c = Some key) cs) w
    \<and> same_under key (perform_all cs w) (perform_all (filter (\<lambda>c. call_key c = Some key) cs) w)"
  using keys_independent_from [of cs key w w t] assms by simp

theorem keys_independent_witness:
  "answers_for ''a'' [Call_sadd ''a'' [''x''], Call_incr ''b'', Call_scard ''a''] (storage_init (\<lambda>n. 7) rev)
     = answers_for ''a'' [Call_sadd ''a'' [''x''], Call_scard ''a''] (storage_init (\<lambda>n. 7) rev)"
  using keys_independent [of "[Call_sadd ''a'' [''x''], Call_incr ''b'', Call_scard ''a'']"
      "storage_init (\<lambda>n. 7) rev" 7 "''a''"]
  by (simp add: storage_init_def)

end
