(* ===== verification/Storage_Interleaving.thy ===== *)
theory Storage_Interleaving
  imports Storage_Local
begin

text \<open>
  \<open>expire\<close> looks for its key in the four maps one after the other, releasing each mutex before
  it takes the next one, so that calls of other threads can run in between. This theory
  lets them: the four blocks with a list of calls before each. Calls on other keys make no
  difference; calls on the same key can leave a state that no order of the calls leaves.
\<close>

section \<open>The blocks as steps\<close>

datatype stage = In_strings | In_hashes | In_lists | In_sets

primrec expire_stage :: "stage \<Rightarrow> string \<Rightarrow> int \<Rightarrow> bool act" where
  "expire_stage In_strings key e = expire_block String_mutex string_data string_data_update key e"
| "expire_stage In_hashes key e = expire_block Hash_mutex hash_data hash_data_update key e"
| "expire_stage In_lists key e = expire_block List_mutex list_data list_data_update key e"
| "expire_stage In_sets key e = expire_block Set_mutex set_data set_data_update key e"

text \<open>A block runs only if none before it has returned.\<close>

definition next_stage :: "stage \<Rightarrow> bool \<Rightarrow> string \<Rightarrow> int \<Rightarrow> bool act" where
  "next_stage i finished key e = (if finished then State_Monad.return True else expire_stage i key e)"

text \<open>The blocks of one \<open>expire\<close>, each after some calls of other threads.\<close>

primrec run_stages :: "(call list \<times> stage) list \<Rightarrow> bool \<Rightarrow> string \<Rightarrow> int \<Rightarrow> bool act" where
  "run_stages [] finished key e = State_Monad.return finished"
| "run_stages (x # xs) finished key e = do {
     State_Monad.update (perform_all (fst x));
     r \<leftarrow> next_stage (snd x) finished key e;
     run_stages xs r key e
   }"

text \<open>\<open>Storage::expire\<close> with calls before each of its blocks.\<close>

definition expire_interleaved ::
  "string \<Rightarrow> int \<Rightarrow> call list \<Rightarrow> call list \<Rightarrow> call list \<Rightarrow> call list \<Rightarrow> bool act" where
  "expire_interleaved key seconds cs0 cs1 cs2 cs3 = do {
     t \<leftarrow> now;
     nanos \<leftarrow> long_result (seconds * nanos_per_second);
     expiry_time \<leftarrow> long_result (t + nanos);
     run_stages [(cs0, In_strings), (cs1, In_hashes), (cs2, In_lists), (cs3, In_sets)] False key expiry_time
   }"

lemma run_update_id: "run_state (State_Monad.update (perform_all [])) w = ((), w)"
  by (simp add: perform_all.simps)

text \<open>Without other calls it is \<open>expire\<close>.\<close>

lemma expire_undisturbed: "run_state (expire_interleaved key s [] [] [] []) w = run_state (storage_expire key s) w"
  by (simp add: expire_interleaved_def storage_expire_def next_stage_def State_Monad.run_state_bind
      case_prod_beta')

section \<open>Worlds that agree on some keys\<close>

definition agree_on :: "string set \<Rightarrow> world \<Rightarrow> world \<Rightarrow> bool" where
  "agree_on K w w' \<longleftrightarrow> (\<forall>key \<in> K. same_under key w w') \<and> same_future w w'"

lemma agree_onD: "agree_on K w w' \<Longrightarrow> key \<in> K \<Longrightarrow> alike key w w'"
  by (simp add: agree_on_def alike_def)

lemma agree_on_trans: "agree_on K a b \<Longrightarrow> agree_on K b c \<Longrightarrow> agree_on K a c"
  by (auto simp: agree_on_def same_future_def intro: same_under_trans)

lemma agree_on_sym: "agree_on K w w' \<Longrightarrow> agree_on K w' w"
  by (simp add: agree_on_def same_future_def same_under_sym)

lemma agree_on_split: "agree_on (- {key}) w w' \<Longrightarrow> same_under key w w' \<Longrightarrow> agree_on UNIV w w'"
  by (auto simp: agree_on_def)

lemma perform_agree:
  assumes "call_ok c" and "\<forall>k. call_key c = Some k \<longrightarrow> k \<in> K" and "agree_on K w w'"
  shows "agree_on K (perform c w) (perform c w')"
proof (cases "call_key c")
  case None
  then have "c = Call_ping" by (cases c) simp_all
  with assms(3) show ?thesis by (simp add: exec_simps)
next
  case (Some k)
  with assms(2) have "k \<in> K" by simp
  have k: "alike k (perform c w) (perform c w')"
    using perform_local [OF assms(1) Some agree_onD [OF assms(3) \<open>k \<in> K\<close>]] by simp
  have "same_under key (perform c w) (perform c w')" if "key \<in> K" for key
  proof (cases "key = k")
    case True
    with k show ?thesis by (simp add: alike_def)
  next
    case False
    with Some assms(1) have "same_under key w (perform c w)" "same_under key w' (perform c w')"
      by (auto intro: perform_isolated)
    moreover have "same_under key w w'" using assms(3) that by (simp add: agree_on_def)
    ultimately show ?thesis by (meson same_under_sym same_under_trans)
  qed
  with k show ?thesis by (simp add: agree_on_def alike_def)
qed

lemma perform_all_agree:
  assumes "\<forall>c \<in> set cs. call_ok c \<and> (\<forall>k. call_key c = Some k \<longrightarrow> k \<in> K)" and "agree_on K w w'"
  shows "agree_on K (perform_all cs w) (perform_all cs w')"
  using assms by (induction cs arbitrary: w w') (simp_all add: perform_agree)

section \<open>A block and the calls on other keys commute\<close>

lemmas run_stage = strings.run_expire_block hashes.run_expire_block lists.run_expire_block
  sets.run_expire_block

lemma stage_local:
  assumes "same_under key w w'"
  shows "fst (run_state (next_stage i b key e) w') = fst (run_state (next_stage i b key e) w)"
    and "same_under key (snd (run_state (next_stage i b key e) w)) (snd (run_state (next_stage i b key e) w'))"
  using same_underD [OF assms]
  by (cases i; simp add: next_stage_def run_stage same_under_def find_set_expiry_item)+

lemma stage_isolated:
  "k \<noteq> key \<Longrightarrow> same_under k w (snd (run_state (next_stage i b key e) w))"
  by (cases i) (simp_all add: next_stage_def run_stage same_under_def find_set_expiry_other)

lemma stage_clock:
  "clock (snd (run_state (next_stage i b key e) w)) = clock w"
  "reads (snd (run_state (next_stage i b key e) w)) = reads w"
  by (cases i; simp add: next_stage_def run_stage)+

lemma stage_future:
  "same_future (snd (run_state (next_stage i b key e) w)) (snd (run_state (next_stage i b key e) w'))
     = same_future w w'"
  by (simp add: same_future_def stage_clock)

lemma stage_agree:
  assumes "agree_on UNIV w w'"
  shows "agree_on UNIV (snd (run_state (next_stage i b key e) w)) (snd (run_state (next_stage i b key e) w'))"
proof -
  have "same_under k (snd (run_state (next_stage i b key e) w)) (snd (run_state (next_stage i b key e) w'))" for k
  proof (cases "k = key")
    case True
    with assms stage_local(2) show ?thesis by (simp add: agree_on_def)
  next
    case False
    from stage_isolated [OF False] show ?thesis
      using assms by (meson UNIV_I agree_on_def same_under_sym same_under_trans)
  qed
  with assms show ?thesis by (simp add: agree_on_def stage_future)
qed

lemma stage_commutes:
  assumes "\<forall>c \<in> set cs. call_ok c \<and> call_key c \<noteq> Some key"
  shows "fst (run_state (next_stage i b key e) (perform_all cs w)) = fst (run_state (next_stage i b key e) w)"
    and "agree_on UNIV (snd (run_state (next_stage i b key e) (perform_all cs w)))
      (perform_all cs (snd (run_state (next_stage i b key e) w)))"
proof -
  let ?B = "\<lambda>w. snd (run_state (next_stage i b key e) w)"
  have untouched: "same_under key v (perform_all cs v)" for v
    using assms by (intro perform_all_isolated) blast
  show "fst (run_state (next_stage i b key e) (perform_all cs w)) = fst (run_state (next_stage i b key e) w)"
    by (rule stage_local(1) [OF untouched])
  have "agree_on (- {key}) (?B w) w"
    using stage_isolated same_under_sym
    by (auto simp: agree_on_def same_future_def stage_clock)
  then have "agree_on (- {key}) (perform_all cs (?B w)) (perform_all cs w)"
    using assms by (intro perform_all_agree) auto
  moreover have "agree_on (- {key}) (?B (perform_all cs w)) (perform_all cs w)"
    using stage_isolated same_under_sym
    by (auto simp: agree_on_def same_future_def stage_clock)
  ultimately have "agree_on (- {key}) (?B (perform_all cs w)) (perform_all cs (?B w))"
    by (blast intro: agree_on_trans agree_on_sym)
  moreover have "same_under key (?B (perform_all cs w)) (perform_all cs (?B w))"
    using stage_local(2) [OF untouched] untouched same_under_sym same_under_trans by metis
  ultimately show "agree_on UNIV (?B (perform_all cs w)) (perform_all cs (?B w))"
    by (rule agree_on_split)
qed

lemma run_stages_serial:
  assumes "\<forall>x \<in> set xs. \<forall>c \<in> set (fst x). call_ok c \<and> call_key c \<noteq> Some key"
    and "\<forall>c \<in> set pre. call_ok c \<and> call_key c \<noteq> Some key" and "agree_on UNIV w (perform_all pre v)"
  shows "fst (run_state (run_stages xs b key e) w) = fst (run_state (run_stages (map (\<lambda>x. ([], snd x)) xs) b key e) v)
    \<and> agree_on UNIV (snd (run_state (run_stages xs b key e) w))
        (perform_all (pre @ concat (map fst xs))
          (snd (run_state (run_stages (map (\<lambda>x. ([], snd x)) xs) b key e) v)))"
  using assms
proof (induction xs arbitrary: pre b w v)
  case Nil
  then show ?case by simp
next
  case (Cons x xs)
  let ?B = "\<lambda>w. run_state (next_stage (snd x) b key e) w"
  let ?pre = "pre @ fst x"
  have pre: "\<forall>c \<in> set ?pre. call_ok c \<and> call_key c \<noteq> Some key" using Cons.prems(1,2) by auto
  have all: "perform_all (as @ bs) u = perform_all bs (perform_all as u)" for as bs u
    by (induction as arbitrary: u) simp_all
  have agree: "agree_on UNIV (perform_all (fst x) w) (perform_all ?pre v)"
    unfolding all using Cons.prems(1,3) by (intro perform_all_agree) auto
  have "same_under key (perform_all (fst x) w) (perform_all ?pre v)" using agree by (simp add: agree_on_def)
  from stage_local(1) [OF this] have r: "fst (?B (perform_all (fst x) w)) = fst (?B v)"
    using stage_commutes(1) [OF pre] by simp
  have "agree_on UNIV (snd (?B (perform_all (fst x) w))) (perform_all ?pre (snd (?B v)))"
    by (rule agree_on_trans [OF stage_agree [OF agree] stage_commutes(2) [OF pre]])
  then have "fst (run_state (run_stages xs (fst (?B v)) key e) (snd (?B (perform_all (fst x) w))))
        = fst (run_state (run_stages (map (\<lambda>x. ([], snd x)) xs) (fst (?B v)) key e) (snd (?B v)))
      \<and> agree_on UNIV (snd (run_state (run_stages xs (fst (?B v)) key e) (snd (?B (perform_all (fst x) w)))))
        (perform_all (?pre @ concat (map fst xs))
          (snd (run_state (run_stages (map (\<lambda>x. ([], snd x)) xs) (fst (?B v)) key e) (snd (?B v)))))"
    using Cons.prems(1) pre by (intro Cons.IH) auto
  then show ?case by (simp add: State_Monad.run_state_bind case_prod_beta' r)
qed

text \<open>
  C16. \<open>expire\<close> is atomic towards other keys: whatever calls on other keys run between its reading
  of the clock and its last block, it returns what it would have returned alone, and what is
  stored under every key in the end is what running \<open>expire\<close> first and these calls after it
  leaves. Without such calls it is \<open>Storage::expire\<close>.
\<close>

theorem expire_atomic_towards_other_keys:
  assumes "\<forall>c \<in> set (cs0 @ cs1 @ cs2 @ cs3). call_ok c \<and> call_key c \<noteq> Some key"
  shows "fst (run_state (expire_interleaved key s cs0 cs1 cs2 cs3) w) = fst (run_state (storage_expire key s) w)
    \<and> (\<forall>k. same_under k (snd (run_state (expire_interleaved key s cs0 cs1 cs2 cs3) w))
          (perform_all (cs0 @ cs1 @ cs2 @ cs3) (perform (Call_expire key s) w)))
    \<and> run_state (expire_interleaved key s [] [] [] []) w = run_state (storage_expire key s) w"
proof -
  let ?xs = "[(cs0, In_strings), (cs1, In_hashes), (cs2, In_lists), (cs3, In_sets)]"
  let ?e = "deadline (clock w (reads w)) s"
  let ?v = "started_expire s w"
  have start: "run_state (expire_interleaved key s as bs cs ds) w =
      run_state (run_stages [(as, In_strings), (bs, In_hashes), (cs, In_lists), (ds, In_sets)] False key ?e) ?v"
    for as bs cs ds
    by (simp add: expire_interleaved_def State_Monad.run_state_bind deadline_def started_expire_def
        deadline_events_def)
  have "agree_on UNIV ?v (perform_all [] ?v)" by (simp add: agree_on_def same_future_def)
  moreover have "\<forall>x \<in> set ?xs. \<forall>c \<in> set (fst x). call_ok c \<and> call_key c \<noteq> Some key" using assms by auto
  ultimately have "fst (run_state (run_stages ?xs False key ?e) ?v)
        = fst (run_state (run_stages (map (\<lambda>x. ([], snd x)) ?xs) False key ?e) ?v)
      \<and> agree_on UNIV (snd (run_state (run_stages ?xs False key ?e) ?v))
        (perform_all ([] @ concat (map fst ?xs)) (snd (run_state (run_stages (map (\<lambda>x. ([], snd x)) ?xs) False key ?e) ?v)))"
    by (intro run_stages_serial) simp_all
  moreover have "run_state (run_stages (map (\<lambda>x. ([], snd x)) ?xs) False key ?e) ?v = run_state (storage_expire key s) w"
    unfolding expire_undisturbed [symmetric] start by simp
  ultimately show ?thesis
    by (simp only: start expire_undisturbed) (simp add: agree_on_def perform.simps)
qed

theorem expire_atomic_towards_other_keys_witness:
  "fst (run_state (expire_interleaved ''k'' 60 [] [Call_set ''a'' ''1''] [] [Call_incr ''b''])
     (storage_init (\<lambda>n. 7) rev)) = False"
proof -
  have "\<forall>c \<in> set ([] @ [Call_set ''a'' ''1''] @ [] @ [Call_incr ''b'']). call_ok c \<and> call_key c \<noteq> Some ''k''"
    by simp
  from expire_atomic_towards_other_keys [OF this, of 60 "storage_init (\<lambda>n. 7) rev"]
  show ?thesis by (simp add: exec_simps Let_def storage_init_def um.find_empty)
qed

text \<open>
  \<open>expire\<close> is not atomic towards its own key: when the key is missing and another thread
  stores a string and then a hash under it after \<open>expire\<close> has looked at the strings, \<open>expire\<close>
  finds the hash and leaves the string alone. None of the three orders of \<open>expire\<close> and the
  two calls leaves that state.
\<close>

lemma expire_not_atomic:
  "let w = storage_init clk ord; put = Call_set key v; hput = Call_hset key f x; ex = Call_expire key s;
       (r, w') = run_state (expire_interleaved key s [] [put, hput] [] []) w
   in r
    \<and> map_option has_expiry (umap_find key (string_data w')) = Some False
    \<and> map_option has_expiry (umap_find key (hash_data w')) = Some True
    \<and> \<not> same_under key w' (perform_all [ex, put, hput] w)
    \<and> \<not> same_under key w' (perform_all [put, ex, hput] w)
    \<and> \<not> same_under key w' (perform_all [put, hput, ex] w)"
  by (simp add: expire_interleaved_def next_stage_def run_stage exec_simps Let_def case_prod_beta'
      storage_init_def um.find_empty um.find_put umap_find_purge find_set_expiry_item same_under_def
      new_item_def started_expire_def expired_at_def)

end
