(* ===== verification/Parser.thy ===== *)
theory Parser
  imports Cxx_String
begin

text \<open>
  \<open>Parser::parse\<close> (\<open>include/parser.h\<close>, \<open>src/parser.cpp\<close>): a line of whitespace-separated
  tokens, the first of which, in any case, names the command. A command with too few
  arguments parses as \<open>UNKNOWN\<close>; surplus tokens are dropped, except for the commands that
  take any number of values. The lemmas: arity of every result, case-insensitivity, and a
  printer that \<open>parse\<close> inverts.
\<close>

section \<open>Commands\<close>

datatype command_type =
    PING | SET | GET | INCR | DECR | INCRBY | HSET | HGET | HGETALL | LPUSH | RPOP | LRANGE
  | EXPIRE | TTL | SADD | SMEMBERS | SREM | SISMEMBER | SCARD | UNKNOWN

record command =
  ctype :: command_type
  args :: "string list"

definition parse :: "string \<Rightarrow> command" where
  "parse input =
     (let toks = tokens input in
      if toks = [] then \<lparr>ctype = UNKNOWN, args = []\<rparr>
      else
        let cmd = map toupper (toks ! 0); n = length toks in
        if cmd = ''PING'' then \<lparr>ctype = PING, args = []\<rparr>
        else if cmd = ''SET'' \<and> 3 \<le> n then \<lparr>ctype = SET, args = [toks ! 1, toks ! 2]\<rparr>
        else if cmd = ''GET'' \<and> 2 \<le> n then \<lparr>ctype = GET, args = [toks ! 1]\<rparr>
        else if cmd = ''INCR'' \<and> 2 \<le> n then \<lparr>ctype = INCR, args = [toks ! 1]\<rparr>
        else if cmd = ''DECR'' \<and> 2 \<le> n then \<lparr>ctype = DECR, args = [toks ! 1]\<rparr>
        else if cmd = ''INCRBY'' \<and> 3 \<le> n then \<lparr>ctype = INCRBY, args = [toks ! 1, toks ! 2]\<rparr>
        else if cmd = ''HSET'' \<and> 4 \<le> n then \<lparr>ctype = HSET, args = [toks ! 1, toks ! 2, toks ! 3]\<rparr>
        else if cmd = ''HGET'' \<and> 3 \<le> n then \<lparr>ctype = HGET, args = [toks ! 1, toks ! 2]\<rparr>
        else if cmd = ''HGETALL'' \<and> 2 \<le> n then \<lparr>ctype = HGETALL, args = [toks ! 1]\<rparr>
        else if cmd = ''LPUSH'' \<and> 3 \<le> n then \<lparr>ctype = LPUSH, args = toks ! 1 # drop 2 toks\<rparr>
        else if cmd = ''RPOP'' \<and> 2 \<le> n then \<lparr>ctype = RPOP, args = [toks ! 1]\<rparr>
        else if cmd = ''LRANGE'' \<and> 4 \<le> n then \<lparr>ctype = LRANGE, args = [toks ! 1, toks ! 2, toks ! 3]\<rparr>
        else if cmd = ''EXPIRE'' \<and> 3 \<le> n then \<lparr>ctype = EXPIRE, args = [toks ! 1, toks ! 2]\<rparr>
        else if cmd = ''TTL'' \<and> 2 \<le> n then \<lparr>ctype = TTL, args = [toks ! 1]\<rparr>
        else if cmd = ''SADD'' \<and> 3 \<le> n then \<lparr>ctype = SADD, args = toks ! 1 # drop 2 toks\<rparr>
        else if cmd = ''SMEMBERS'' \<and> 2 \<le> n then \<lparr>ctype = SMEMBERS, args = [toks ! 1]\<rparr>
        else if cmd = ''SREM'' \<and> 3 \<le> n then \<lparr>ctype = SREM, args = toks ! 1 # drop 2 toks\<rparr>
        else if cmd = ''SISMEMBER'' \<and> 3 \<le> n then \<lparr>ctype = SISMEMBER, args = [toks ! 1, toks ! 2]\<rparr>
        else if cmd = ''SCARD'' \<and> 2 \<le> n then \<lparr>ctype = SCARD, args = [toks ! 1]\<rparr>
        else \<lparr>ctype = UNKNOWN, args = []\<rparr>)"

section \<open>Arity\<close>

text \<open>How many arguments a command of each type carries: exactly, or at least.\<close>

primrec arity :: "command_type \<Rightarrow> nat" where
  "arity PING = 0" | "arity SET = 2" | "arity GET = 1" | "arity INCR = 1" | "arity DECR = 1"
| "arity INCRBY = 2" | "arity HSET = 3" | "arity HGET = 2" | "arity HGETALL = 1"
| "arity LPUSH = 2" | "arity RPOP = 1" | "arity LRANGE = 3" | "arity EXPIRE = 2"
| "arity TTL = 1" | "arity SADD = 2" | "arity SMEMBERS = 1" | "arity SREM = 2"
| "arity SISMEMBER = 2" | "arity SCARD = 1" | "arity UNKNOWN = 0"

definition variadic :: "command_type \<Rightarrow> bool" where
  "variadic t \<longleftrightarrow> t = LPUSH \<or> t = SADD \<or> t = SREM"

definition well_formed :: "command \<Rightarrow> bool" where
  "well_formed cmd \<longleftrightarrow>
     (if variadic (ctype cmd) then arity (ctype cmd) \<le> length (args cmd)
      else length (args cmd) = arity (ctype cmd))
   \<and> (\<forall>a \<in> set (args cmd). is_token a)"

lemma parse_facts: "well_formed (parse input) \<and> set (args (parse input)) \<subseteq> set (tokens input)"
proof -
  have tok: "is_token (tokens input ! i)" if "i < length (tokens input)" for i
    using that by (intro tokens_are_tokens [of _ input]) simp
  have drops: "is_token t" if "t \<in> set (drop 2 (tokens input))" for t
    using that by (auto intro: tokens_are_tokens [of _ input] dest: in_set_dropD)
  show ?thesis
    by (auto simp: parse_def Let_def well_formed_def variadic_def tok drops dest: in_set_dropD)
qed

lemma parse_well_formed [simp]: "well_formed (parse input)"
  using parse_facts by (rule conjunct1)

text \<open>
  C22. Whatever the input, \<open>parse\<close> returns a command with as many arguments as its type needs
  (at least that many for LPUSH, SADD and SREM), each of them a token of the input: not
  empty and without whitespace.
\<close>

theorem parse_arity:
  "well_formed (parse input) \<and> set (args (parse input)) \<subseteq> set (tokens input)"
  by (rule parse_facts)

section \<open>Case\<close>

definition upcase_first :: "string \<Rightarrow> string" where
  "upcase_first input = (case tokens input of [] \<Rightarrow> [] | t # ts \<Rightarrow> unwords (map toupper t # ts))"

lemma isspace_code: "isspace c \<longleftrightarrow> (of_char c :: nat) \<in> {9, 10, 11, 12, 13, 32}"
proof -
  have "isspace c \<longleftrightarrow> (of_char c :: nat)
      \<in> of_char ` {CHR 0x20, CHR 0x09, CHR 0x0A, CHR 0x0B, CHR 0x0C, CHR 0x0D}"
    unfolding isspace_def by (simp only: image_iff of_char_eq_iff) blast
  then show ?thesis by auto
qed

lemma isspace_toupper [simp]: "isspace (toupper c) \<longleftrightarrow> isspace c"
proof (cases "97 \<le> (of_char c :: nat) \<and> (of_char c :: nat) \<le> 122")
  case True
  then have "(of_char (toupper c) :: nat) = of_char c - 32"
    by (auto simp: toupper_def Let_def intro!: mod_less)
  with True show ?thesis by (auto simp: isspace_code)
next
  case False
  then show ?thesis by (auto simp: toupper_def Let_def)
qed

lemma is_token_toupper [simp]: "is_token (map toupper t) \<longleftrightarrow> is_token t"
  by (auto simp: is_token_def)

lemma parse_tokens: "tokens i = tokens j \<Longrightarrow> parse i = parse j"
  by (simp add: parse_def)

text \<open>
  Command names are case-insensitive: the input with its first token in upper case parses to
  the same command.
\<close>

lemma parse_ignores_case: "parse (upcase_first input) = parse input"
proof (cases "tokens input")
  case Nil
  then show ?thesis by (simp add: upcase_first_def parse_def)
next
  case (Cons t ts)
  have "is_token w" if "w \<in> set (map toupper t # ts)" for w
    using that tokens_are_tokens [of _ input] Cons by auto
  then have "tokens (upcase_first input) = map toupper t # ts"
    unfolding upcase_first_def Cons by (simp only: list.case) (rule tokens_unwords, blast)
  moreover have "map toupper (map toupper t) = map toupper t" by simp
  ultimately show ?thesis
    unfolding parse_def Cons Let_def by (simp only: nth_Cons_0 list.distinct nth_Cons_Suc
        length_Cons One_nat_def numeral_2_eq_2 numeral_3_eq_3 drop_Suc_Cons)
qed

section \<open>Printing a command\<close>

primrec command_name :: "command_type \<Rightarrow> string" where
  "command_name PING = ''PING''" | "command_name SET = ''SET''" | "command_name GET = ''GET''"
| "command_name INCR = ''INCR''" | "command_name DECR = ''DECR''"
| "command_name INCRBY = ''INCRBY''" | "command_name HSET = ''HSET''"
| "command_name HGET = ''HGET''" | "command_name HGETALL = ''HGETALL''"
| "command_name LPUSH = ''LPUSH''" | "command_name RPOP = ''RPOP''"
| "command_name LRANGE = ''LRANGE''" | "command_name EXPIRE = ''EXPIRE''"
| "command_name TTL = ''TTL''" | "command_name SADD = ''SADD''"
| "command_name SMEMBERS = ''SMEMBERS''" | "command_name SREM = ''SREM''"
| "command_name SISMEMBER = ''SISMEMBER''" | "command_name SCARD = ''SCARD''"
| "command_name UNKNOWN = ''?''"

definition print_command :: "command \<Rightarrow> string" where
  "print_command cmd = unwords (command_name (ctype cmd) # args cmd)"

lemma command_name_token: "is_token (command_name t)"
  by (cases t) (simp_all add: is_token_def isspace_def)

lemma command_name_upper: "map toupper (command_name t) = command_name t"
  by (cases t) (simp_all add: toupper_def)

lemma tokens_print_command:
  assumes "well_formed cmd"
  shows "tokens (print_command cmd) = command_name (ctype cmd) # args cmd"
  unfolding print_command_def
  using assms command_name_token by (intro tokens_unwords) (auto simp: well_formed_def)

lemma length_1: "length xs = Suc 0 \<Longrightarrow> \<exists>a. xs = [a]"
  by (auto simp: length_Suc_conv)

lemma length_2: "length xs = 2 \<Longrightarrow> \<exists>a b. xs = [a, b]"
  by (auto simp: numeral_2_eq_2 length_Suc_conv)

lemma length_3: "length xs = 3 \<Longrightarrow> \<exists>a b c. xs = [a, b, c]"
  by (auto simp: numeral_3_eq_3 length_Suc_conv)

lemma length_ge_2: "2 \<le> length xs \<Longrightarrow> \<exists>a b ys. xs = a # b # ys"
  by (cases xs; cases "tl xs") auto

lemma parse_named:
  assumes "tokens input = command_name t # xs" and "t \<noteq> UNKNOWN"
    and len: "if variadic t then arity t \<le> length xs else length xs = arity t"
  shows "parse input = \<lparr>ctype = t, args = xs\<rparr>"
  using len assms(2)
  apply (cases t; simp add: variadic_def)
  apply (auto dest!: length_1 length_2 length_3 length_ge_2)
  apply (simp_all add: parse_def assms(1) Let_def toupper_def)
  done

text \<open>
  C23. Every command the protocol knows can be written: a well-formed command, printed as its name
  and its arguments separated by spaces, parses back to itself.
\<close>

theorem parse_print:
  assumes "well_formed cmd" and "ctype cmd \<noteq> UNKNOWN"
  shows "parse (print_command cmd) = cmd"
proof -
  obtain t xs where cmd: "cmd = \<lparr>ctype = t, args = xs\<rparr>" by (cases cmd)
  have toks: "tokens (print_command cmd) = command_name t # xs"
    using assms(1) by (simp add: tokens_print_command cmd)
  have len: "if variadic t then arity t \<le> length xs else length xs = arity t"
    using assms(1) unfolding well_formed_def cmd command.select_convs by (rule conjunct1)
  with toks assms(2) have "parse (print_command cmd) = \<lparr>ctype = t, args = xs\<rparr>"
    by (intro parse_named) (simp_all add: cmd)
  then show ?thesis by (simp add: cmd)
qed

theorem parse_print_witness:
  "parse ''SADD team red blue'' = \<lparr>ctype = SADD, args = [''team'', ''red'', ''blue'']\<rparr>"
proof -
  let ?cmd = "\<lparr>ctype = SADD, args = [''team'', ''red'', ''blue'']\<rparr>"
  have "well_formed ?cmd" by (simp add: well_formed_def variadic_def is_token_def isspace_def)
  then have "parse (print_command ?cmd) = ?cmd" by (rule parse_print) simp
  then show ?thesis by (simp add: print_command_def)
qed

end
