(* ===== verification/Session_Handler.thy ===== *)
theory Session_Handler
  imports Parser Storage_Sets
begin

text \<open>
  \<open>Session\<close> (\<open>include/session.h\<close>, \<open>src/session.cpp\<close>): one connected client. A session reads a
  chunk of bytes, drops every CR and LF in it, runs the text as one command against the
  shared \<open>Storage\<close>, writes the response and reads again.

  \<open>handle_command\<close> is a function on the storage state that returns the response. The
  asynchronous loop \<open>do_read\<close>/\<open>do_write\<close> is the step relation \<open>net_step\<close> over all
  sessions of a server: a completed read runs its command as one step, which is what the
  strand and the mutexes of \<open>Storage\<close> are there for (theory \<open>Storage_Locking\<close> judges them).
\<close>

section \<open>\<open>handle_command\<close>\<close>

text \<open>A line of a response.\<close>

definition line :: "string \<Rightarrow> string" where
  "line s = s @ crlf"

definition reply :: "string \<Rightarrow> string act" where
  "reply s = State_Monad.return (line s)"

text \<open>The value of a lookup, or \<open>(nil)\<close>.\<close>

definition reply_value :: "string option \<Rightarrow> string act" where
  "reply_value v = (case v of Some value \<Rightarrow> reply value | None \<Rightarrow> reply ''(nil)'')"

definition hash_lines :: "(string \<times> string) list \<Rightarrow> string" where
  "hash_lines entries = concat (map (\<lambda>(f, v). line (f @ '': '' @ v)) entries)"

definition list_lines :: "string list \<Rightarrow> string" where
  "list_lines vals =
     concat (map (\<lambda>(i, v). line (to_string (int i) @ '') '' @ v)) (enumerate 0 vals))"

definition set_lines :: "(string \<times> bool) list \<Rightarrow> string" where
  "set_lines entries = concat (map (\<lambda>(m, _). line m) entries)"

text \<open>One definition per case of the switch, on the arguments of the command.\<close>

definition exec_ping :: "string act" where
  "exec_ping = reply ''PONG''"

definition exec_set :: "string list \<Rightarrow> string act" where
  "exec_set a =
    (if 2 \<le> length a then do { storage_set (a ! 0) (a ! 1); reply ''OK'' }
     else reply ''ERROR: SET requires key and value'')"

definition exec_get :: "string list \<Rightarrow> string act" where
  "exec_get a =
    (if 1 \<le> length a then do { value \<leftarrow> storage_get (a ! 0); reply_value value }
     else reply ''ERROR: GET requires key'')"

definition exec_incr :: "string list \<Rightarrow> string act" where
  "exec_incr a =
    (if 1 \<le> length a then do { value \<leftarrow> storage_incr (a ! 0); reply (to_string value) }
     else reply ''ERROR: INCR requires key'')"

definition exec_decr :: "string list \<Rightarrow> string act" where
  "exec_decr a =
    (if 1 \<le> length a then do { value \<leftarrow> storage_decr (a ! 0); reply (to_string value) }
     else reply ''ERROR: DECR requires key'')"

definition exec_incrby :: "string list \<Rightarrow> string act" where
  "exec_incrby a =
    (if 2 \<le> length a then
       (case stoll (a ! 1) of
          Inr increment \<Rightarrow> do {
            value \<leftarrow> storage_incrby (a ! 0) increment; reply (to_string value) }
        | Inl _ \<Rightarrow> reply ''ERROR: Invalid increment value'')
     else reply ''ERROR: INCRBY requires key and increment'')"

definition exec_hset :: "string list \<Rightarrow> string act" where
  "exec_hset a =
    (if 3 \<le> length a then do { storage_hset (a ! 0) (a ! 1) (a ! 2); reply ''OK'' }
     else reply ''ERROR: HSET requires hash key, field, and value'')"

definition exec_hget :: "string list \<Rightarrow> string act" where
  "exec_hget a =
    (if 2 \<le> length a then do { value \<leftarrow> storage_hget (a ! 0) (a ! 1); reply_value value }
     else reply ''ERROR: HGET requires hash key and field'')"

definition exec_hgetall :: "string list \<Rightarrow> string act" where
  "exec_hgetall a =
    (if 1 \<le> length a then do {
       fields \<leftarrow> storage_hgetall (a ! 0);
       ord \<leftarrow> query iter_order;
       (if fields = umap_empty then reply ''(empty hash)''
        else State_Monad.return (hash_lines (umap_entries ord fields)))
     } else reply ''ERROR: HGETALL requires hash key'')"

definition exec_lpush :: "string list \<Rightarrow> string act" where
  "exec_lpush a =
    (if 2 \<le> length a then do {
       new_length \<leftarrow> storage_lpush (a ! 0) (drop 1 a); reply (to_string new_length) }
     else reply ''ERROR: LPUSH requires list key and at least one value'')"

definition exec_rpop :: "string list \<Rightarrow> string act" where
  "exec_rpop a =
    (if 1 \<le> length a then do { value \<leftarrow> storage_rpop (a ! 0); reply_value value }
     else reply ''ERROR: RPOP requires list key'')"

definition exec_lrange :: "string list \<Rightarrow> string act" where
  "exec_lrange a =
    (if 3 \<le> length a then
       (case stoll (a ! 1) of
          Inl _ \<Rightarrow> reply ''ERROR: Invalid range values''
        | Inr start \<Rightarrow>
            (case stoll (a ! 2) of
               Inl _ \<Rightarrow> reply ''ERROR: Invalid range values''
             | Inr stop \<Rightarrow> do {
                 vals \<leftarrow> storage_lrange (a ! 0) start stop;
                 (if vals = [] then reply ''(empty list)''
                  else State_Monad.return (list_lines vals))
               }))
     else reply ''ERROR: LRANGE requires list key, start index, and end index'')"

definition exec_sadd :: "string list \<Rightarrow> string act" where
  "exec_sadd a =
    (if 2 \<le> length a then do {
       added \<leftarrow> storage_sadd (a ! 0) (drop 1 a); reply (to_string added) }
     else reply ''ERROR: SADD requires set key and at least one member'')"

definition exec_smembers :: "string list \<Rightarrow> string act" where
  "exec_smembers a =
    (if 1 \<le> length a then do {
       members \<leftarrow> storage_smembers (a ! 0);
       ord \<leftarrow> query iter_order;
       (if members = umap_empty then reply ''(empty set)''
        else State_Monad.return (set_lines (umap_entries ord members)))
     } else reply ''ERROR: SMEMBERS requires set key'')"

definition exec_srem :: "string list \<Rightarrow> string act" where
  "exec_srem a =
    (if 2 \<le> length a then do {
       removed \<leftarrow> storage_srem (a ! 0) (drop 1 a); reply (to_string removed) }
     else reply ''ERROR: SREM requires set key and at least one member'')"

definition exec_sismember :: "string list \<Rightarrow> string act" where
  "exec_sismember a =
    (if 2 \<le> length a then do {
       isMember \<leftarrow> storage_sismember (a ! 0) (a ! 1);
       reply (if isMember then ''1'' else ''0'') }
     else reply ''ERROR: SISMEMBER requires set key and member'')"

definition exec_scard :: "string list \<Rightarrow> string act" where
  "exec_scard a =
    (if 1 \<le> length a then do { count \<leftarrow> storage_scard (a ! 0); reply (to_string count) }
     else reply ''ERROR: SCARD requires set key'')"

definition exec_expire :: "string list \<Rightarrow> string act" where
  "exec_expire a =
    (if 2 \<le> length a then
       (case stoll (a ! 1) of
          Inr seconds \<Rightarrow> do {
            b \<leftarrow> storage_expire (a ! 0) seconds; reply (if b then ''1'' else ''0'') }
        | Inl _ \<Rightarrow> reply ''ERROR: Invalid seconds value'')
     else reply ''ERROR: EXPIRE requires key and seconds'')"

definition exec_ttl :: "string list \<Rightarrow> string act" where
  "exec_ttl a =
    (if 1 \<le> length a then do { remaining \<leftarrow> storage_ttl (a ! 0); reply (to_string remaining) }
     else reply ''ERROR: TTL requires key'')"

definition exec_unknown :: "string act" where
  "exec_unknown = reply ''ERROR: Unknown command''"

definition execute_command :: "command \<Rightarrow> string act" where
  "execute_command cmd = (let a = args cmd in
     case ctype cmd of
       PING \<Rightarrow> exec_ping
     | SET \<Rightarrow> exec_set a
     | GET \<Rightarrow> exec_get a
     | INCR \<Rightarrow> exec_incr a
     | DECR \<Rightarrow> exec_decr a
     | INCRBY \<Rightarrow> exec_incrby a
     | HSET \<Rightarrow> exec_hset a
     | HGET \<Rightarrow> exec_hget a
     | HGETALL \<Rightarrow> exec_hgetall a
     | LPUSH \<Rightarrow> exec_lpush a
     | RPOP \<Rightarrow> exec_rpop a
     | LRANGE \<Rightarrow> exec_lrange a
     | SADD \<Rightarrow> exec_sadd a
     | SMEMBERS \<Rightarrow> exec_smembers a
     | SREM \<Rightarrow> exec_srem a
     | SISMEMBER \<Rightarrow> exec_sismember a
     | SCARD \<Rightarrow> exec_scard a
     | EXPIRE \<Rightarrow> exec_expire a
     | TTL \<Rightarrow> exec_ttl a
     | UNKNOWN \<Rightarrow> exec_unknown)"

definition handle_command :: "string \<Rightarrow> string act" where
  "handle_command commandStr = execute_command (parse commandStr)"

lemmas execute_defs = execute_command_def exec_ping_def exec_set_def exec_get_def exec_incr_def
  exec_decr_def exec_incrby_def exec_hset_def exec_hget_def exec_hgetall_def exec_lpush_def
  exec_rpop_def exec_lrange_def exec_sadd_def exec_smembers_def exec_srem_def exec_sismember_def
  exec_scard_def exec_expire_def exec_ttl_def exec_unknown_def

lemma run_reply [simp, exec_simps]: "run_state (reply s) w = (line s, w)"
  by (simp add: reply_def)

lemma run_reply_value [simp, exec_simps]:
  "run_state (reply_value v) w = (line (case v of Some s \<Rightarrow> s | None \<Rightarrow> ''(nil)''), w)"
  by (simp add: reply_value_def split: option.splits)

section \<open>A command is at most one call of \<open>Storage\<close>\<close>

definition command_call :: "command \<Rightarrow> call option" where
  "command_call cmd = (let a = args cmd in
     case ctype cmd of
       PING \<Rightarrow> None
     | SET \<Rightarrow> Some (Call_set (a ! 0) (a ! 1))
     | GET \<Rightarrow> Some (Call_get (a ! 0))
     | INCR \<Rightarrow> Some (Call_incr (a ! 0))
     | DECR \<Rightarrow> Some (Call_decr (a ! 0))
     | INCRBY \<Rightarrow> (case stoll (a ! 1) of Inr d \<Rightarrow> Some (Call_incrby (a ! 0) d) | Inl _ \<Rightarrow> None)
     | HSET \<Rightarrow> Some (Call_hset (a ! 0) (a ! 1) (a ! 2))
     | HGET \<Rightarrow> Some (Call_hget (a ! 0) (a ! 1))
     | HGETALL \<Rightarrow> Some (Call_hgetall (a ! 0))
     | LPUSH \<Rightarrow> Some (Call_lpush (a ! 0) (drop 1 a))
     | RPOP \<Rightarrow> Some (Call_rpop (a ! 0))
     | LRANGE \<Rightarrow> (case stoll (a ! 1) of Inl _ \<Rightarrow> None | Inr i \<Rightarrow>
          (case stoll (a ! 2) of Inl _ \<Rightarrow> None | Inr j \<Rightarrow> Some (Call_lrange (a ! 0) i j)))
     | SADD \<Rightarrow> Some (Call_sadd (a ! 0) (drop 1 a))
     | SMEMBERS \<Rightarrow> Some (Call_smembers (a ! 0))
     | SREM \<Rightarrow> Some (Call_srem (a ! 0) (drop 1 a))
     | SISMEMBER \<Rightarrow> Some (Call_sismember (a ! 0) (a ! 1))
     | SCARD \<Rightarrow> Some (Call_scard (a ! 0))
     | EXPIRE \<Rightarrow> (case stoll (a ! 1) of Inr s \<Rightarrow> Some (Call_expire (a ! 0) s) | Inl _ \<Rightarrow> None)
     | TTL \<Rightarrow> Some (Call_ttl (a ! 0))
     | UNKNOWN \<Rightarrow> None)"

definition perform_option :: "call option \<Rightarrow> world \<Rightarrow> world" where
  "perform_option c w = (case c of Some c \<Rightarrow> perform c w | None \<Rightarrow> w)"

lemma well_formed_args:
  "well_formed cmd \<Longrightarrow> (if variadic (ctype cmd) then arity (ctype cmd) \<le> length (args cmd)
     else length (args cmd) = arity (ctype cmd))"
  unfolding well_formed_def by (rule conjunct1)

lemma execute_command_state:
  assumes "well_formed cmd"
  shows "snd (run_state (execute_command cmd) w) = perform_option (command_call cmd) w"
  using well_formed_args [OF assms]
  by (cases "ctype cmd")
    (simp_all add: execute_defs command_call_def perform_option_def perform.simps Let_def
      variadic_def case_prod_beta split: sum.splits)

lemma command_call_ok: "well_formed cmd \<Longrightarrow> command_call cmd = Some c \<Longrightarrow> call_ok c"
  using well_formed_args [of cmd]
  by (cases "ctype cmd")
    (auto simp: command_call_def Let_def variadic_def stoll_fits64 dest: stoll_fits64 split: sum.splits)

end
