(* ===== verification/Session_Protocol.thy ===== *)
theory Session_Protocol
  imports Session_Handler
begin

text \<open>
  The protocol a client of the server sees: every response is a sequence of lines without
  line breaks inside, whatever the clients stored (framing); a command with too few
  arguments, and a number that is none, are refused without touching the store; commands
  over the wire read back what commands over the wire wrote.
\<close>

section \<open>No line break ever enters the store\<close>

definition one_line :: "string \<Rightarrow> bool" where
  "one_line s \<longleftrightarrow> newline \<notin> set s \<and> carriage_return \<notin> set s"

text \<open>Every text in the store, hash fields included, has the property \<open>P\<close>.\<close>

definition store_texts :: "(string \<Rightarrow> bool) \<Rightarrow> world \<Rightarrow> bool" where
  "store_texts P w \<longleftrightarrow>
     all_items P (string_data w)
   \<and> all_items (\<lambda>h. \<forall>f v. umap_find f h = Some v \<longrightarrow> P f \<and> P v) (hash_data w)
   \<and> all_items (\<lambda>xs. \<forall>x \<in> set xs. P x) (list_data w)
   \<and> all_items (\<lambda>s. \<forall>m \<in> keyset s. P m) (set_data w)"

abbreviation store_clean :: "world \<Rightarrow> bool" where
  "store_clean \<equiv> store_texts one_line"

lemma one_line_append [simp]: "one_line (s @ t) \<longleftrightarrow> one_line s \<and> one_line t"
  by (auto simp: one_line_def)

lemma one_line_Nil [simp]: "one_line []"
  by (simp add: one_line_def)

lemma one_line_Cons [simp]:
  "one_line (c # s) \<longleftrightarrow> c \<noteq> newline \<and> c \<noteq> carriage_return \<and> one_line s"
  by (auto simp: one_line_def)

lemma one_line_token: "is_token t \<Longrightarrow> one_line t"
  by (auto simp: one_line_def is_token_def)

lemma one_line_to_string [simp]: "one_line (to_string n)"
  by (intro one_line_token to_string_is_token)

lemma all_items_popped_closed:
  "all_items P m \<Longrightarrow> (\<And>xs. P xs \<Longrightarrow> P (butlast xs)) \<Longrightarrow> all_items P (popped key m)"
  by (auto simp: popped_def all_items_def um.find_put um.wf_put split: option.splits)

lemma all_items_srem_map:
  "all_items P m \<Longrightarrow> (umap_find key m \<noteq> None \<Longrightarrow> P s) \<Longrightarrow> all_items P (srem_map key s m)"
  by (auto simp: srem_map_def intro: all_items_erase all_items_put split: option.splits)

lemma counter_item_text: "\<exists>n. contents (counter_item key d m) = to_string n"
  by (auto simp: counter_item_def new_item_def split: option.splits sum.splits)

lemma counter_item_all: "(\<And>n. P (to_string n)) \<Longrightarrow> P (contents (counter_item key d m))"
  using counter_item_text [of key d m] by auto

text \<open>The texts a call can put into the store.\<close>

primrec call_texts :: "call \<Rightarrow> string list" where
  "call_texts Call_ping = []"
| "call_texts (Call_set k v) = [v]"
| "call_texts (Call_get k) = []"
| "call_texts (Call_incr k) = []"
| "call_texts (Call_decr k) = []"
| "call_texts (Call_incrby k d) = []"
| "call_texts (Call_hset k f v) = [f, v]"
| "call_texts (Call_hget k f) = []"
| "call_texts (Call_hgetall k) = []"
| "call_texts (Call_lpush k vs) = vs"
| "call_texts (Call_rpop k) = []"
| "call_texts (Call_lrange k i j) = []"
| "call_texts (Call_sadd k ms) = ms"
| "call_texts (Call_srem k ms) = []"
| "call_texts (Call_sismember k m) = []"
| "call_texts (Call_smembers k) = []"
| "call_texts (Call_scard k) = []"
| "call_texts (Call_expire k s) = []"
| "call_texts (Call_ttl k) = []"

lemma sadd_result_clean:
  assumes "all_items (\<lambda>s. \<forall>m \<in> keyset s. P m) m" and "\<forall>x \<in> set ms. P x"
  shows "\<forall>x \<in> keyset (fst (sadd_result key ms m)). P x"
  using assms
  by (auto simp: sadd_result_def sadd_existing_spec sadd_new_spec all_items_def split: option.splits)

lemma srem_result_clean:
  assumes "all_items (\<lambda>s. \<forall>m \<in> keyset s. P m) m"
  shows "\<forall>x \<in> keyset (fst (srem_result key ms m)). P x"
  using assms
  by (auto simp: srem_result_def srem_loop_spec all_items_def found_def split: option.splits)

lemma found_clean_hash:
  assumes "all_items (\<lambda>h. \<forall>f v. umap_find f h = Some v \<longrightarrow> P f \<and> P v) m"
    and "umap_find f (found umap_empty (umap_find key m)) = Some v"
  shows "P f \<and> P v"
  using assms by (auto simp: all_items_def found_def um.find_empty split: option.splits)

lemma found_clean_list:
  assumes "all_items (\<lambda>xs. \<forall>x \<in> set xs. P x) m"
    and "x \<in> set (found [] (umap_find key m))"
  shows "P x"
  using assms by (cases "umap_find key m") (auto simp: all_items_def)

lemma found_clean_set:
  assumes "all_items (\<lambda>s. \<forall>m \<in> keyset s. P m) m"
    and "x \<in> keyset (found umap_empty (umap_find key m))"
  shows "P x"
  using assms by (auto simp: all_items_def found_def split: option.splits)

lemmas clean_intros = all_items_purge all_items_put all_items_set_expiry all_items_popped_closed
  all_items_srem_map

lemma store_texts_init [simp]: "store_texts P (storage_init clk ord)"
  by (simp add: store_texts_def storage_init_def all_items_def um.find_empty)

lemma store_texts_perform:
  assumes "\<forall>s \<in> set (call_texts c). P s" and "store_texts P w" and "call_ok c"
    and "\<And>n. P (to_string n)"
  shows "store_texts P (perform c w)"
proof (cases c)
  case (Call_hset k f v)
  from assms(2) have "all_items (\<lambda>h. \<forall>f v. umap_find f h = Some v \<longrightarrow> P f \<and> P v)
      (hashes_at k w)" by (simp add: store_texts_def all_items_purge)
  from found_clean_hash [OF this] Call_hset assms show ?thesis
    by (auto simp: store_texts_def exec_simps um.find_put intro!: clean_intros split: if_splits)
next
  case (Call_lpush k vs)
  from assms(2) have "all_items (\<lambda>xs. \<forall>x \<in> set xs. P x) (lists_at k w)"
    by (simp add: store_texts_def all_items_purge)
  from found_clean_list [OF this] Call_lpush assms show ?thesis
    by (auto simp: store_texts_def exec_simps intro!: clean_intros)
next
  case (Call_rpop k)
  then show ?thesis
    using assms(2) by (auto simp: store_texts_def exec_simps intro!: clean_intros dest: in_set_butlastD)
next
  case (Call_sadd k ms)
  with assms have "\<forall>x \<in> keyset (fst (sadd_result k ms (sets_at k w))). P x"
    by (intro sadd_result_clean) (auto simp: store_texts_def all_items_purge)
  with Call_sadd assms show ?thesis
    by (auto simp: store_texts_def exec_simps intro!: clean_intros)
next
  case (Call_srem k ms)
  from assms have "\<forall>x \<in> keyset (fst (srem_result k ms (sets_at k w))). P x"
    by (intro srem_result_clean) (auto simp: store_texts_def all_items_purge)
  with Call_srem assms show ?thesis
    by (auto simp: store_texts_def exec_simps intro!: clean_intros)
next
  case (Call_expire k s)
  with assms show ?thesis
    by (auto simp: store_texts_def exec_simps Let_def started_expire_def intro!: clean_intros)
next
  case (Call_ttl k)
  with assms show ?thesis
    by (auto simp: store_texts_def exec_simps Let_def intro!: clean_intros split: option.splits)
qed (use assms in \<open>auto simp: store_texts_def exec_simps counter_after_def Let_def
    intro!: clean_intros counter_item_all [where P = P, OF assms(4)]\<close>)

section \<open>Framing\<close>

text \<open>A response is one or more lines, each ended by CRLF and without a line break inside.\<close>

definition framed :: "string \<Rightarrow> bool" where
  "framed r \<longleftrightarrow> (\<exists>ls. ls \<noteq> [] \<and> (\<forall>l \<in> set ls. one_line l) \<and> r = concat (map line ls))"

lemma framed_line [simp]: "one_line s \<Longrightarrow> framed (line s)"
  unfolding framed_def by (rule exI [of _ "[s]"]) simp

lemma framed_concat:
  "xs \<noteq> [] \<Longrightarrow> (\<And>x. x \<in> set xs \<Longrightarrow> one_line (f x)) \<Longrightarrow> framed (concat (map (\<lambda>x. line (f x)) xs))"
  unfolding framed_def by (rule exI [of _ "map f xs"]) (auto simp: comp_def)

lemma framed_hash_lines:
  assumes "es \<noteq> []" and "\<And>f v. (f, v) \<in> set es \<Longrightarrow> one_line f \<and> one_line v"
  shows "framed (hash_lines es)"
proof -
  have "hash_lines es = concat (map (\<lambda>e. line (fst e @ '': '' @ snd e)) es)"
    by (simp add: hash_lines_def case_prod_beta')
  also have "framed \<dots>"
    using assms by (intro framed_concat) auto
  finally show ?thesis .
qed

lemma framed_set_lines:
  assumes "es \<noteq> []" and "\<And>m b. (m, b) \<in> set es \<Longrightarrow> one_line m"
  shows "framed (set_lines es)"
proof -
  have "set_lines es = concat (map (\<lambda>e. line (fst e)) es)"
    by (simp add: set_lines_def case_prod_beta')
  also have "framed \<dots>"
    using assms by (intro framed_concat) auto
  finally show ?thesis .
qed

lemma framed_list_lines:
  assumes "xs \<noteq> []" and "\<And>x. x \<in> set xs \<Longrightarrow> one_line x"
  shows "framed (list_lines xs)"
proof -
  have "list_lines xs = concat (map (\<lambda>e. line (to_string (int (fst e)) @ '') '' @ snd e)) (enumerate 0 xs))"
    by (simp add: list_lines_def case_prod_beta')
  moreover have "one_line (to_string (int (fst e)) @ '') '' @ snd e)" if "e \<in> set (enumerate 0 xs)" for e
  proof -
    from that have "snd e \<in> set (map snd (enumerate 0 xs))" by (simp only: set_map imageI)
    then have "snd e \<in> set xs" by (simp only: map_snd_enumerate)
    with assms(2) show ?thesis by simp
  qed
  moreover have "enumerate 0 xs \<noteq> []"
    using assms(1) by (metis length_enumerate length_0_conv)
  ultimately show ?thesis by (simp only:) (rule framed_concat)
qed

lemma framed_option:
  "(\<And>v. x = Some v \<Longrightarrow> one_line v) \<Longrightarrow>
   framed (line (case x of Some s \<Rightarrow> s | None \<Rightarrow> ''(nil)''))"
  by (cases x) simp_all

lemma set_slice: "x \<in> set (if b then [] else take n (drop m xs)) \<Longrightarrow> x \<in> set xs"
  by (auto split: if_splits dest: in_set_takeD in_set_dropD)

lemma set_lrange_values: "x \<in> set (lrange_values xs i j) \<Longrightarrow> x \<in> set xs"
  unfolding lrange_values_def Let_def
  by (cases "xs = []") (simp, simp only: if_False set_slice)

text \<open>What a call finds in a store of one-line texts are one-line texts.\<close>

lemma found_clean:
  assumes "store_clean w"
  shows "map_option contents (umap_find k (purge t k (string_data w))) = Some s \<Longrightarrow> one_line s"
    and "umap_find f (found umap_empty (umap_find k (hashes_at k w))) = Some v \<Longrightarrow> one_line f \<and> one_line v"
    and "x \<in> set (found [] (umap_find k (lists_at k w))) \<Longrightarrow> one_line x"
    and "y \<in> keyset (found umap_empty (umap_find k (sets_at k w))) \<Longrightarrow> one_line y"
proof -
  have "all_items one_line (purge t k (string_data w))"
    using assms by (simp add: store_texts_def all_items_purge)
  then show "map_option contents (umap_find k (purge t k (string_data w))) = Some s \<Longrightarrow> one_line s"
    by (auto simp: all_items_def)
  show "umap_find f (found umap_empty (umap_find k (hashes_at k w))) = Some v \<Longrightarrow> one_line f \<and> one_line v"
    using assms by (elim found_clean_hash [where P = one_line, rotated]) (auto simp: store_texts_def all_items_purge)
  show "x \<in> set (found [] (umap_find k (lists_at k w))) \<Longrightarrow> one_line x"
    using assms by (elim found_clean_list [where P = one_line, rotated]) (auto simp: store_texts_def all_items_purge)
  show "y \<in> keyset (found umap_empty (umap_find k (sets_at k w))) \<Longrightarrow> one_line y"
    using assms by (elim found_clean_set [where P = one_line, rotated]) (auto simp: store_texts_def all_items_purge)
qed

lemma response_framed:
  assumes "store_clean w" and "enumerates (iter_order w)"
  shows "framed (fst (run_state (execute_command cmd) w))"
proof -
  note entry = set_umap_entries [OF assms(2)]
  note str = found_clean(1) [OF assms(1)] and hash = found_clean(2) [OF assms(1)]
    and list = found_clean(3) [OF assms(1)] and sets = found_clean(4) [OF assms(1)]
  show ?thesis
  proof (cases "ctype cmd")
    case GET
    have "framed (line (case map_option contents (umap_find k (purge t k (string_data w))) of
        Some s \<Rightarrow> s | None \<Rightarrow> ''(nil)''))" for k t
      by (rule framed_option) (rule str)
    with GET show ?thesis by (simp add: execute_defs exec_simps Let_def)
  next
    case HGET
    have "framed (line (case umap_find f (found umap_empty (umap_find k (hashes_at k w))) of
        Some s \<Rightarrow> s | None \<Rightarrow> ''(nil)''))" for k f
      by (rule framed_option) (use hash in blast)
    with HGET show ?thesis by (simp add: execute_defs exec_simps Let_def)
  next
    case HGETALL
    have "framed (hash_lines (umap_entries (iter_order w) m))"
      if "m \<noteq> umap_empty" "m = found umap_empty (umap_find k (hashes_at k w))" for k m
      using that hash [of _ k] umap_entries_eq_Nil [OF assms(2)]
      by (intro framed_hash_lines) (auto simp: entry)
    with HGETALL show ?thesis by (simp add: execute_defs exec_simps Let_def)
  next
    case RPOP
    have "framed (line (case (if found [] (umap_find k (lists_at k w)) = [] then None
        else Some (last (found [] (umap_find k (lists_at k w))))) of
        Some s \<Rightarrow> s | None \<Rightarrow> ''(nil)''))" for k
      by (rule framed_option) (auto split: if_splits intro: list last_in_set)
    with RPOP show ?thesis by (simp add: execute_defs exec_simps Let_def)
  next
    case LRANGE
    have "framed (list_lines (lrange_values (found [] (umap_find k (lists_at k w))) i j))"
      if "lrange_values (found [] (umap_find k (lists_at k w))) i j \<noteq> []" for k i j
      using that by (intro framed_list_lines) (auto dest!: set_lrange_values intro: list)
    with LRANGE show ?thesis
      by (simp add: execute_defs exec_simps Let_def split: sum.splits)
  next
    case SMEMBERS
    have "framed (set_lines (umap_entries (iter_order w) m))"
      if "m \<noteq> umap_empty" "m = found umap_empty (umap_find k (sets_at k w))" for k m
      using that sets [of _ k] umap_entries_eq_Nil [OF assms(2)]
      by (intro framed_set_lines) (auto simp: entry um.in_keys)
    with SMEMBERS show ?thesis by (simp add: execute_defs exec_simps Let_def)
  qed (auto simp: execute_defs split_beta exec_simps Let_def
      State_Monad.run_state_bind split: sum.splits)
qed

text \<open>The server's answers to a sequence of inputs, and the state it ends in.\<close>

primrec serve_all :: "string list \<Rightarrow> world \<Rightarrow> string list \<times> world" where
  "serve_all [] w = ([], w)"
| "serve_all (i # is) w =
     (let (r, w') = run_state (handle_command i) w; (rs, w'') = serve_all is w' in (r # rs, w''))"

lemma command_texts_tokens:
  assumes "well_formed cmd" and "command_call cmd = Some c" and "s \<in> set (call_texts c)"
  shows "is_token s"
proof -
  have "set (call_texts c) \<subseteq> set (args cmd)"
    using assms(2) well_formed_args [OF assms(1)]
    by (cases "ctype cmd")
      (auto simp: command_call_def Let_def variadic_def dest: in_set_dropD split: sum.splits)
  with assms(1,3) show ?thesis by (auto simp: well_formed_def)
qed

text \<open>What holds of all tokens holds of all texts a client can store.\<close>

lemma store_texts_handle:
  assumes "store_texts P w" and "\<And>t. is_token t \<Longrightarrow> P t"
  shows "store_texts P (snd (run_state (handle_command i) w))"
  using assms(1) command_texts_tokens [OF parse_well_formed [of i]]
    command_call_ok [OF parse_well_formed [of i]] to_string_is_token
  by (auto simp: handle_command_def execute_command_state perform_option_def
      intro!: store_texts_perform intro: assms(2) split: option.splits)

lemma store_texts_served:
  assumes "store_texts P w" and "\<And>t. is_token t \<Longrightarrow> P t"
  shows "store_texts P (snd (serve_all inputs w))"
  using assms(1)
  by (induction inputs arbitrary: w) (simp_all add: case_prod_beta' Let_def store_texts_handle assms(2))

lemma store_clean_handle: "store_clean w \<Longrightarrow> store_clean (snd (run_state (handle_command i) w))"
  by (rule store_texts_handle) (simp_all add: one_line_token)

lemma perform_iter_order: "call_ok c \<Longrightarrow> iter_order (perform c w) = iter_order w"
  by (cases c) (simp_all add: exec_simps counter_after_def started_expire_def Let_def split: option.splits)

lemma handle_iter_order: "iter_order (snd (run_state (handle_command i) w)) = iter_order w"
  by (auto simp: handle_command_def execute_command_state perform_option_def perform_iter_order
      command_call_ok [OF parse_well_formed] split: option.splits)

lemma iter_order_init [simp]: "iter_order (storage_init clk ord) = ord"
  by (simp add: storage_init_def)

lemma serve_all_framed:
  assumes "store_clean w" and "enumerates (iter_order w)"
  shows "(\<forall>r \<in> set (fst (serve_all inputs w)). framed r) \<and> length (fst (serve_all inputs w)) = length inputs"
  using assms
proof (induction inputs arbitrary: w)
  case (Cons i inputs)
  let ?w = "snd (run_state (handle_command i) w)"
  have "framed (fst (run_state (handle_command i) w))"
    using Cons.prems by (simp add: handle_command_def response_framed)
  moreover have "store_clean ?w" "enumerates (iter_order ?w)"
    using Cons.prems by (simp_all add: store_clean_handle handle_iter_order)
  ultimately show ?case using Cons.IH [of ?w] by (simp add: case_prod_beta' Let_def)
qed simp

text \<open>
  C25. Framing: whatever bytes the clients send, each input gets one response, and it is one or
  more lines that end with CRLF and contain no line break themselves. No stored value can
  break the protocol.
\<close>

theorem responses_framed:
  assumes "enumerates ord"
  shows "(\<forall>r \<in> set (fst (serve_all inputs (storage_init clk ord))). framed r)
    \<and> length (fst (serve_all inputs (storage_init clk ord))) = length inputs"
  using assms by (intro serve_all_framed) simp_all

theorem responses_framed_witness:
  "length (fst (serve_all [''HSET h f v'', ''HGETALL h'', ''nonsense''] (storage_init (\<lambda>n. 7) rev))) = 3"
  using responses_framed [of rev "[''HSET h f v'', ''HGETALL h'', ''nonsense'']" "\<lambda>n. 7"] by simp

section \<open>Commands and calls\<close>

text \<open>
  C24. Each command text makes at most one call of \<open>Storage\<close>, the one \<open>command_call\<close> names, with
  arguments of the right types; a text with none leaves the store as it is.
\<close>

theorem command_is_one_call:
  "snd (run_state (handle_command input) w) =
     (case command_call (parse input) of Some c \<Rightarrow> perform c w | None \<Rightarrow> w)
   \<and> (case command_call (parse input) of Some c \<Rightarrow> call_ok c | None \<Rightarrow> True)"
  using command_call_ok [OF parse_well_formed [of input]]
  by (auto simp: handle_command_def execute_command_state perform_option_def split: option.splits)

lemma parse_too_few:
  assumes "tokens input = n # xs" and "map toupper n = command_name t" and "length xs < arity t"
  shows "parse input = \<lparr>ctype = UNKNOWN, args = []\<rparr>"
  using assms(3) by (cases t) (simp_all add: parse_def assms(1,2) Let_def)

text \<open>
  A command with fewer arguments than it needs is answered with the response for an unknown
  command and changes nothing: the specific messages of \<open>handle_command\<close> are never sent.
\<close>

lemma too_few_arguments:
  assumes "tokens input = n # xs" and "map toupper n = command_name t" and "length xs < arity t"
  shows "run_state (handle_command input) w = (line ''ERROR: Unknown command'', w)"
  using parse_too_few [OF assms] by (simp add: handle_command_def execute_defs)

text \<open>
  Numbers are checked before the store is touched: an INCRBY, EXPIRE or LRANGE whose number
  \<open>std::stoll\<close> rejects (no digits, or out of the range of \<open>long long\<close>) gets an error line and
  leaves the store as it is.
\<close>

lemma invalid_numbers_refused:
  assumes "well_formed cmd"
    and "ctype cmd \<in> {INCRBY, EXPIRE, LRANGE}"
    and "\<exists>e. stoll (args cmd ! 1) = Inl e \<or> ctype cmd = LRANGE \<and> stoll (args cmd ! 2) = Inl e"
  shows "run_state (execute_command cmd) w =
    (line (if ctype cmd = INCRBY then ''ERROR: Invalid increment value''
       else if ctype cmd = EXPIRE then ''ERROR: Invalid seconds value''
       else ''ERROR: Invalid range values''), w)"
proof -
  from assms(2) consider "ctype cmd = INCRBY" | "ctype cmd = EXPIRE" | "ctype cmd = LRANGE" by blast
  then show ?thesis
    using assms(3) well_formed_args [OF assms(1)]
    by cases (auto simp: execute_defs Let_def variadic_def split: sum.split)
qed

section \<open>Reading back over the wire\<close>

definition untouched_by :: "string \<Rightarrow> string \<Rightarrow> bool" where
  "untouched_by key input \<longleftrightarrow> (case command_call (parse input) of
     Some c \<Rightarrow> call_key c \<noteq> Some key | None \<Rightarrow> True)"

lemma serve_all_same_under:
  "\<forall>i \<in> set inputs. untouched_by key i \<Longrightarrow> same_under key w (snd (serve_all inputs w))"
proof (induction inputs arbitrary: w)
  case Nil
  then show ?case by (simp add: same_under_def)
next
  case (Cons i inputs)
  let ?w = "snd (run_state (handle_command i) w)"
  have "same_under key w ?w"
    using Cons.prems command_call_ok [OF parse_well_formed [of i]]
    by (auto simp: handle_command_def execute_command_state perform_option_def untouched_by_def
        same_under_def [of key w w] split: option.splits intro: perform_isolated)
  moreover have "same_under key ?w (snd (serve_all inputs ?w))"
    using Cons by simp
  ultimately show ?case by (simp add: same_under_def case_prod_beta' Let_def)
qed

lemma parse_unwords:
  assumes "well_formed \<lparr>ctype = t, args = xs\<rparr>" and "t \<noteq> UNKNOWN"
  shows "parse (unwords (command_name t # xs)) = \<lparr>ctype = t, args = xs\<rparr>"
proof -
  have "tokens (unwords (command_name t # xs)) = command_name t # xs"
    using tokens_print_command [OF assms(1)] by (simp only: print_command_def command.select_convs)
  then show ?thesis
    using assms(2) well_formed_args [OF assms(1), unfolded command.select_convs]
    by (rule parse_named)
qed

lemma run_command_text:
  assumes "well_formed \<lparr>ctype = t, args = xs\<rparr>" and "t \<noteq> UNKNOWN"
  shows "handle_command (unwords (command_name t # xs)) = execute_command \<lparr>ctype = t, args = xs\<rparr>"
  unfolding handle_command_def parse_unwords [OF assms] ..

text \<open>
  C26. End to end: after \<open>SET key value\<close>, \<open>GET key\<close> answers the value, after any inputs in
  between, well-formed or not, that do not address the key.
\<close>

theorem set_get_over_wire:
  assumes "is_token key" and "is_token value" and "\<forall>i \<in> set inputs. untouched_by key i"
  shows "let (r1, w1) = run_state (handle_command (unwords [''SET'', key, value])) w;
      w2 = snd (serve_all inputs w1);
      r2 = fst (run_state (handle_command (unwords [''GET'', key])) w2)
    in r1 = line ''OK'' \<and> r2 = line value"
proof -
  have cmds: "handle_command (unwords [''SET'', key, value]) = execute_command \<lparr>ctype = SET, args = [key, value]\<rparr>"
    "handle_command (unwords [''GET'', key]) = execute_command \<lparr>ctype = GET, args = [key]\<rparr>"
    using assms(1,2) run_command_text [of SET "[key, value]"] run_command_text [of GET "[key]"]
    by (simp_all add: well_formed_def variadic_def)
  let ?w = "snd (run_state (storage_set key value) w)"
  have "umap_find key (string_data ?w) = Some (new_item value)"
    by (simp add: exec_simps)
  moreover have "same_under key ?w (snd (serve_all inputs ?w))"
    using assms(3) by (rule serve_all_same_under)
  ultimately have "umap_find key (string_data (snd (serve_all inputs ?w))) = Some (new_item value)"
    by (simp add: same_under_def)
  then show ?thesis
    unfolding cmds
    by (simp add: execute_defs Let_def case_prod_beta' umap_find_purge
        run_storage_get State_Monad.run_state_bind)
qed

theorem set_get_over_wire_witness:
  "let (r1, w1) = run_state (handle_command ''SET name steve'') (storage_init (\<lambda>n. 7) rev);
      w2 = snd (serve_all [''INCR visits'', ''DEL name''] w1);
      r2 = fst (run_state (handle_command ''GET name'') w2)
    in r1 = line ''OK'' \<and> r2 = line ''steve''"
proof -
  have "untouched_by ''name'' ''INCR visits''" "untouched_by ''name'' ''DEL name''"
    by code_simp+
  moreover have "is_token ''name''" "is_token ''steve''" by (simp_all add: is_token_def isspace_def)
  ultimately show ?thesis
    using set_get_over_wire [of "''name''" "''steve''" "[''INCR visits'', ''DEL name'']"
        "storage_init (\<lambda>n. 7) rev"] by simp
qed

text \<open>
  HGETALL answers one line \<open>field: value\<close> for every field of the live hash, each field once,
  in the order the map is iterated, and \<open>(empty hash)\<close> for a missing or expired key.
\<close>

lemma hgetall_lists_fields:
  assumes "is_token key" and "store_wf w" and "enumerates (iter_order w)"
  shows "\<exists>es. distinct (map fst es)
    \<and> map_of es = (case hash_view (hash_time key w) w key of Some h \<Rightarrow> h | None \<Rightarrow> (\<lambda>_. None))
    \<and> fst (run_state (handle_command (unwords [''HGETALL'', key])) w) =
        (if es = [] then line ''(empty hash)''
         else concat (map (\<lambda>(f, v). line (f @ '': '' @ v)) es))"
proof -
  let ?m = "found umap_empty (umap_find key (hashes_at key w))"
  let ?es = "umap_entries (iter_order w) ?m"
  have cmd: "handle_command (unwords [''HGETALL'', key]) = execute_command \<lparr>ctype = HGETALL, args = [key]\<rparr>"
    using assms(1) run_command_text [of HGETALL "[key]"] by (simp add: well_formed_def variadic_def)
  have wf: "umap_wf ?m"
    using assms(2)
    by (intro all_items_found [where P = umap_wf]) (auto simp: store_wf_all_items all_items_purge)
  then have "distinct (map fst ?es)"
    using assms(3) by (simp add: keys_umap_entries distinct_enumerates um.distinct_keys)
  moreover have "map_of ?es = (case hash_view (hash_time key w) w key of Some h \<Rightarrow> h | None \<Rightarrow> (\<lambda>_. None))"
    using assms(3) wf
    by (auto simp: fun_eq_iff map_of_umap_entries hash_view_def found_purge um.find_empty split: option.splits)
  moreover have "fst (run_state (handle_command (unwords [''HGETALL'', key])) w) =
      (if ?es = [] then line ''(empty hash)'' else concat (map (\<lambda>(f, v). line (f @ '': '' @ v)) ?es))"
    using umap_entries_eq_Nil [OF assms(3), of ?m]
    unfolding cmd by (simp add: execute_defs exec_simps Let_def hash_lines_def)
  ultimately show ?thesis by blast
qed

text \<open>SMEMBERS answers one line per member of the live set, each once, and \<open>(empty set)\<close> without one.\<close>

lemma smembers_lists_members:
  assumes "is_token key" and "store_wf w" and "enumerates (iter_order w)"
  shows "\<exists>ms. distinct ms \<and> set ms = members_at (set_time key w) w key
    \<and> fst (run_state (handle_command (unwords [''SMEMBERS'', key])) w) =
        (if ms = [] then line ''(empty set)'' else concat (map line ms))"
proof -
  let ?m = "found umap_empty (umap_find key (sets_at key w))"
  let ?es = "umap_entries (iter_order w) ?m"
  have cmd: "handle_command (unwords [''SMEMBERS'', key]) = execute_command \<lparr>ctype = SMEMBERS, args = [key]\<rparr>"
    using assms(1) run_command_text [of SMEMBERS "[key]"] by (simp add: well_formed_def variadic_def)
  have wf: "umap_wf ?m"
    using assms(2) all_items_mono [of "\<lambda>s. umap_wf s \<and> s \<noteq> umap_empty" "set_data w" umap_wf]
    by (intro all_items_found [where P = umap_wf]) (auto simp: store_wf_all_items all_items_purge)
  then have "distinct (map fst ?es)"
    using assms(3) by (simp add: keys_umap_entries distinct_enumerates um.distinct_keys)
  moreover have "set (map fst ?es) = members_at (set_time key w) w key"
    using assms(3) members_found [of key "set_time key w" w]
    by (simp add: keys_umap_entries set_enumerates um.in_keys [symmetric])
  moreover have "fst (run_state (handle_command (unwords [''SMEMBERS'', key])) w) =
      (if map fst ?es = [] then line ''(empty set)'' else concat (map line (map fst ?es)))"
    using umap_entries_eq_Nil [OF assms(3), of ?m]
    unfolding cmd by (simp add: execute_defs exec_simps Let_def set_lines_def comp_def case_prod_beta')
  ultimately show ?thesis by blast
qed

end
