(* ===== verification/Session_Loop.thy ===== *)
theory Session_Loop
  imports Session_Protocol
begin

text \<open>
  The asynchronous read-write loop of \<open>Session\<close> (\<open>start\<close>, \<open>do_read\<close>, \<open>do_write\<close> in
  \<open>src/session.cpp\<close>) and of \<open>Server::do_accept\<close>, as a step relation over any number of
  connections that share one \<open>Storage\<close>. A session always has exactly one operation pending:
  a read or a write. A completed read runs the chunk as a command and starts the write; a
  completed write clears the response and starts the next read; after an error the handler
  starts nothing, the last \<open>shared_ptr\<close> goes and the session with it.
\<close>

section \<open>One session\<close>

datatype phase = Reading | Writing

record session =
  phase :: phase
  response :: string

definition read_limit :: nat where
  "read_limit = 1024"

text \<open>\<open>Session::Session\<close> and \<open>start\<close>.\<close>

definition session_start :: session where
  "session_start = \<lparr>phase = Reading, response = []\<rparr>"

text \<open>The two \<open>erase(remove(...))\<close> calls on the bytes read.\<close>

definition chunk_command :: "string \<Rightarrow> string" where
  "chunk_command bytes = filter (\<lambda>c. c \<noteq> carriage_return) (filter (\<lambda>c. c \<noteq> newline) bytes)"

text \<open>The completion handlers of \<open>do_read\<close> and \<open>do_write\<close> when there is no error.\<close>

definition on_read :: "string \<Rightarrow> session \<Rightarrow> session act" where
  "on_read bytes s = do {
     r \<leftarrow> handle_command (chunk_command bytes);
     State_Monad.return (s\<lparr>response := r, phase := Writing\<rparr>)
   }"

definition on_written :: "session \<Rightarrow> session" where
  "on_written s = s\<lparr>response := [], phase := Reading\<rparr>"

section \<open>All sessions of a server\<close>

text \<open>
  \<open>sent c\<close> are the responses completely written to connection \<open>c\<close>. \<open>history\<close> lists the commands
  executed so far in the order they ran, with the connection and the response.
\<close>

record net =
  store :: world
  sessions :: "nat \<Rightarrow> session option"
  accepted :: nat
  sent :: "nat \<Rightarrow> string list"
  history :: "(nat \<times> string \<times> string) list"

definition net_init :: "world \<Rightarrow> net" where
  "net_init w = \<lparr>store = w, sessions = (\<lambda>_. None), accepted = 0, sent = (\<lambda>_. []), history = []\<rparr>"

text \<open>\<open>do_accept\<close>: a new session for the next connection.\<close>

definition net_accept :: "net \<Rightarrow> net" where
  "net_accept n = n\<lparr>sessions := (sessions n)(accepted n \<mapsto> session_start), accepted := Suc (accepted n)\<rparr>"

definition net_read :: "nat \<Rightarrow> string \<Rightarrow> session \<Rightarrow> net \<Rightarrow> net" where
  "net_read c bytes s n = (let (s', w') = run_state (on_read bytes s) (store n) in
     n\<lparr>store := w', sessions := (sessions n)(c \<mapsto> s'),
       history := history n @ [(c, chunk_command bytes, response s')]\<rparr>)"

definition net_written :: "nat \<Rightarrow> session \<Rightarrow> net \<Rightarrow> net" where
  "net_written c s n = n\<lparr>sessions := (sessions n)(c \<mapsto> on_written s),
     sent := (sent n)(c := sent n c @ [response s])\<rparr>"

definition net_closed :: "nat \<Rightarrow> net \<Rightarrow> net" where
  "net_closed c n = n\<lparr>sessions := (sessions n)(c := None)\<rparr>"

inductive net_step :: "net \<Rightarrow> net \<Rightarrow> bool" where
  accept: "net_step n (net_accept n)"
| read: "sessions n c = Some s \<Longrightarrow> phase s = Reading \<Longrightarrow> 0 < length bytes \<Longrightarrow> length bytes \<le> read_limit \<Longrightarrow>
    net_step n (net_read c bytes s n)"
| read_error: "sessions n c = Some s \<Longrightarrow> phase s = Reading \<Longrightarrow> net_step n (net_closed c n)"
| written: "sessions n c = Some s \<Longrightarrow> phase s = Writing \<Longrightarrow> net_step n (net_written c s n)"
| write_error: "sessions n c = Some s \<Longrightarrow> phase s = Writing \<Longrightarrow> net_step n (net_closed c n)"

inductive net_reachable :: "net \<Rightarrow> net \<Rightarrow> bool" where
  start: "net_reachable n n"
| step: "net_reachable n m \<Longrightarrow> net_step m m' \<Longrightarrow> net_reachable n m'"

inductive_cases net_stepE: "net_step n n'"

section \<open>The invariant\<close>

text \<open>The responses computed for a connection, and those still to be written.\<close>

definition responses_of :: "nat \<Rightarrow> (nat \<times> string \<times> string) list \<Rightarrow> string list" where
  "responses_of c h = map (\<lambda>(_, _, r). r) (filter (\<lambda>(c', _). c' = c) h)"

definition pending :: "session \<Rightarrow> string list" where
  "pending s = (case phase s of Writing \<Rightarrow> [response s] | Reading \<Rightarrow> [])"

definition net_ok :: "world \<Rightarrow> net \<Rightarrow> bool" where
  "net_ok w n \<longleftrightarrow>
     serve_all (map (\<lambda>(_, i, _). i) (history n)) w = (map (\<lambda>(_, _, r). r) (history n), store n)
   \<and> (\<forall>c s. sessions n c = Some s \<longrightarrow> responses_of c (history n) = sent n c @ pending s)
   \<and> (\<forall>c. \<exists>rs. length rs \<le> 1 \<and> responses_of c (history n) = sent n c @ rs)
   \<and> (\<forall>c. accepted n \<le> c \<longrightarrow> sessions n c = None \<and> sent n c = [] \<and> responses_of c (history n) = [])"

lemma serve_all_snoc:
  "serve_all (is @ [i]) w = (let (rs, w') = serve_all is w; (r, w'') = run_state (handle_command i) w'
     in (rs @ [r], w''))"
  by (induction "is" arbitrary: w) (simp_all add: case_prod_beta' Let_def)

lemma responses_of_snoc [simp]:
  "responses_of c (h @ [(c', i, r)]) = responses_of c h @ (if c' = c then [r] else [])"
  by (simp add: responses_of_def)

lemma pending_simps [simp]:
  "pending session_start = []" "pending (on_written s) = []"
  "pending (s\<lparr>response := r, phase := Writing\<rparr>) = [r]"
  by (simp_all add: pending_def session_start_def on_written_def)

lemma length_pending: "length (pending s) \<le> 1"
  by (simp add: pending_def split: phase.splits)

lemma run_on_read:
  "run_state (on_read bytes s) w =
     (let (r, w') = run_state (handle_command (chunk_command bytes)) w
      in (s\<lparr>response := r, phase := Writing\<rparr>, w'))"
  by (simp add: on_read_def State_Monad.run_state_bind case_prod_beta' Let_def)

lemma net_ok_init: "net_ok w (net_init w)"
  by (simp add: net_ok_def net_init_def responses_of_def)

lemma net_ok_accept:
  assumes "net_ok w n" shows "net_ok w (net_accept n)"
  using assms unfolding net_ok_def net_accept_def by (auto split: if_splits)

lemma net_ok_read:
  assumes "net_ok w n" and s: "sessions n c = Some s" "phase s = Reading"
  shows "net_ok w (net_read c bytes s n)"
proof -
  obtain r w' where run: "run_state (handle_command (chunk_command bytes)) (store n) = (r, w')"
    by (cases "run_state (handle_command (chunk_command bytes)) (store n)")
  have n': "net_read c bytes s n = n\<lparr>store := w',
      sessions := (sessions n)(c \<mapsto> s\<lparr>response := r, phase := Writing\<rparr>),
      history := history n @ [(c, chunk_command bytes, r)]\<rparr>"
    by (simp add: net_read_def run_on_read run)
  have c: "c < accepted n" "responses_of c (history n) = sent n c"
    using assms by (force simp: net_ok_def pending_def not_le [symmetric])+
  show ?thesis
    using assms(1) c unfolding n' net_ok_def by (auto simp: serve_all_snoc run split: if_splits)
qed

lemma net_ok_written:
  assumes "net_ok w n" and s: "sessions n c = Some s" "phase s = Writing"
  shows "net_ok w (net_written c s n)"
proof -
  have c: "c < accepted n" "responses_of c (history n) = sent n c @ [response s]"
    using assms by (force simp: net_ok_def pending_def not_le [symmetric])+
  show ?thesis
    using assms(1) c unfolding net_written_def net_ok_def by (auto split: if_splits)
qed

lemma net_ok_closed:
  assumes "net_ok w n" shows "net_ok w (net_closed c n)"
  using assms unfolding net_closed_def net_ok_def by (auto split: if_splits)

lemma net_ok_step: "net_step n n' \<Longrightarrow> net_ok w n \<Longrightarrow> net_ok w n'"
  by (erule net_stepE) (simp_all add: net_ok_accept net_ok_read net_ok_written net_ok_closed)

lemma net_reachable_ok: "net_reachable n n' \<Longrightarrow> net_ok w n \<Longrightarrow> net_ok w n'"
  by (induction rule: net_reachable.induct) (auto intro: net_ok_step)

text \<open>
  Were one handler to run at a time, without the others in between, sessions would be
  serialised: in every state so reachable the store, and the responses
  computed so far, are those of running all received commands one after the other; and
  each connection has been sent its own responses, in order, with at most the last one
  missing.
\<close>

lemma sessions_serialised:
  assumes "net_reachable (net_init w) n"
  shows "serve_all (map (\<lambda>(_, i, _). i) (history n)) w = (map (\<lambda>(_, _, r). r) (history n), store n)
    \<and> (\<forall>c. \<exists>rs. length rs \<le> 1 \<and> responses_of c (history n) = sent n c @ rs)"
  using net_reachable_ok [OF assms net_ok_init] by (simp add: net_ok_def)

section \<open>Chunks and commands\<close>

lemma chunk_command_append [simp]: "chunk_command (x @ y) = chunk_command x @ chunk_command y"
  by (simp add: chunk_command_def)

lemma chunk_command_crlf [simp]: "chunk_command crlf = []"
  by (simp add: chunk_command_def crlf_def)

lemma chunk_command_one_line: "one_line s \<Longrightarrow> chunk_command s = s"
  by (induction s) (auto simp: chunk_command_def)

lemma one_line_unwords: "\<forall>w \<in> set ws. is_token w \<Longrightarrow> one_line (unwords ws)"
  by (induction ws) (auto simp: one_line_token)

text \<open>
  A chunk is one command, whatever line breaks it holds: a client that sends \<open>SET key value\<close>
  and \<open>GET key\<close> as two lines which arrive in one read gets a single OK, and the value stored
  is the given one with the word \<open>GET\<close> appended.
\<close>

lemma pipelined_commands_merge:
  assumes "is_token key" and "is_token value"
  shows "run_state (handle_command (chunk_command
      (unwords [''SET'', key, value] @ crlf @ unwords [''GET'', key] @ crlf))) w
    = (line ''OK'', perform (Call_set key (value @ ''GET'')) w)"
proof -
  let ?ws = "[''SET'', key, value @ ''GET'', key]"
  have tok: "is_token ''SET''" "is_token ''GET''" by (simp_all add: is_token_def isspace_def)
  have "is_token (value @ ''GET'')" using assms(2) tok(2) by (auto simp: is_token_def)
  with assms(1) tok have "\<forall>w \<in> set ?ws. is_token w" by simp
  then have toks: "tokens (unwords ?ws) = ?ws" by (rule tokens_unwords)
  have "chunk_command (unwords [''SET'', key, value] @ crlf @ unwords [''GET'', key] @ crlf)
      = unwords [''SET'', key, value] @ unwords [''GET'', key]"
    using assms tok by (simp only: chunk_command_append chunk_command_crlf)
      (simp add: chunk_command_one_line one_line_unwords one_line_token)
  also have "\<dots> = unwords ?ws" by simp
  finally have "parse (chunk_command (unwords [''SET'', key, value] @ crlf @ unwords [''GET'', key] @ crlf))
      = \<lparr>ctype = SET, args = [key, value @ ''GET'']\<rparr>"
    using toks by (simp only:) (simp add: parse_def Let_def toupper_def)
  then show ?thesis
    by (simp only: handle_command_def) (simp add: execute_defs Let_def perform.simps
        State_Monad.run_state_bind case_prod_beta')
qed

end
