(* ===== verification/Config_Loader.thy ===== *)
theory Config_Loader
  imports Cxx_String Unordered_Map
begin

text \<open>
  \<open>Config\<close> (\<open>include/config.h\<close>, \<open>src/config.cpp\<close>): the settings of a server, their defaults,
  and the loader of \<open>redicraft.conf\<close>. The file is its text, or \<open>None\<close> when it cannot be
  opened. Lines are \<open>key = value\<close>; blank lines, lines that start with \<open>#\<close> or \<open>;\<close> and lines
  without an equals sign are skipped; a number that does not parse leaves the setting as
  it was. The lemmas: what a line does, a printer that \<open>load\<close> inverts, the ranges of the
  numbers, and that no line can add a cluster node.
\<close>

section \<open>Settings\<close>

record cluster_node_config =
  node_host :: string
  node_port :: int
  node_is_master :: bool

record config =
  port :: int
  host :: string
  persistence_enabled :: bool
  persistence_file :: string
  persistence_interval :: int
  replication_enabled :: bool
  replication_role :: string
  replication_port :: int
  master_host :: string
  master_port :: int
  clustering_enabled :: bool
  cluster_port :: int
  cluster_nodes :: "cluster_node_config list"
  config_values :: "(string, string) umap"

definition config_init :: config where
  "config_init =
     \<lparr>port = 7379, host = ''localhost'', persistence_enabled = False,
      persistence_file = ''redicraft.rdb'', persistence_interval = 60,
      replication_enabled = False, replication_role = ''master'', replication_port = 7380,
      master_host = ''localhost'', master_port = 7379, clustering_enabled = False,
      cluster_port = 7381, cluster_nodes = [], config_values = umap_empty\<rparr>"

section \<open>The loader\<close>

definition blanks :: "char list" where
  "blanks = [CHR '' '', tab]"

definition truthy :: "string \<Rightarrow> bool" where
  "truthy value \<longleftrightarrow> value = ''true'' \<or> value = ''1''"

text \<open>\<open>try { x = std::stoi(value); } catch (...) { }\<close>.\<close>

definition stoi_or :: "int \<Rightarrow> string \<Rightarrow> int" where
  "stoi_or old value = (case stoi value of Inr n \<Rightarrow> n | Inl _ \<Rightarrow> old)"

text \<open>
  \<open>host:port:is_master\<close>. When there is no colon the second search starts at \<open>npos + 1\<close>, that
  is at 0, and finds none either.
\<close>

definition parse_cluster_node :: "string \<Rightarrow> config \<Rightarrow> config" where
  "parse_cluster_node value c =
     (let first_colon = find_char (CHR '':'') value;
          second_colon = find_char_from (CHR '':'')
            (case first_colon of None \<Rightarrow> 0 | Some i \<Rightarrow> i + 1) value
      in case (first_colon, second_colon) of
           (Some i, Some j) \<Rightarrow>
             (let n_host = substr value 0 i;
                  port_str = substr value (i + 1) (j - i - 1);
                  master_str = substr_from value (j + 1)
              in case stoi port_str of
                   Inr p \<Rightarrow> c\<lparr>cluster_nodes := cluster_nodes c @
                     [\<lparr>node_host = n_host, node_port = p, node_is_master = truthy master_str\<rparr>]\<rparr>
                 | Inl _ \<Rightarrow> c)
         | _ \<Rightarrow> c)"

definition assign :: "string \<Rightarrow> string \<Rightarrow> config \<Rightarrow> config" where
  "assign key value c0 =
     (let c = c0\<lparr>config_values := umap_put key value (config_values c0)\<rparr> in
      if key = ''port'' then c\<lparr>port := stoi_or (port c) value\<rparr>
      else if key = ''host'' then c\<lparr>host := value\<rparr>
      else if key = ''persistence_enabled'' then c\<lparr>persistence_enabled := truthy value\<rparr>
      else if key = ''persistence_file'' then c\<lparr>persistence_file := value\<rparr>
      else if key = ''persistence_interval'' then
        c\<lparr>persistence_interval := stoi_or (persistence_interval c) value\<rparr>
      else if key = ''replication_enabled'' then c\<lparr>replication_enabled := truthy value\<rparr>
      else if key = ''replication_role'' then c\<lparr>replication_role := value\<rparr>
      else if key = ''replication_port'' then
        c\<lparr>replication_port := stoi_or (replication_port c) value\<rparr>
      else if key = ''master_host'' then c\<lparr>master_host := value\<rparr>
      else if key = ''master_port'' then c\<lparr>master_port := stoi_or (master_port c) value\<rparr>
      else if key = ''clustering_enabled'' then c\<lparr>clustering_enabled := truthy value\<rparr>
      else if key = ''cluster_port'' then c\<lparr>cluster_port := stoi_or (cluster_port c) value\<rparr>
      else if substr key 0 11 = ''cluster_node'' then parse_cluster_node value c
      else c)"

definition load_line :: "string \<Rightarrow> config \<Rightarrow> config" where
  "load_line l c =
     (if l = [] \<or> hd l = CHR ''#'' \<or> hd l = CHR '';'' then c
      else case find_char (CHR ''='') l of
        None \<Rightarrow> c
      | Some equals_pos \<Rightarrow>
          assign (trim blanks (substr l 0 equals_pos)) (trim blanks (substr_from l (equals_pos + 1))) c)"

definition load :: "string option \<Rightarrow> config \<Rightarrow> bool \<times> config" where
  "load file c = (case file of
     None \<Rightarrow> (False, c)
   | Some text \<Rightarrow> (True, fold load_line (getlines text) c))"

section \<open>Getters\<close>

text \<open>Each getter returns its field: an abbreviation of the selector.\<close>

abbreviation get_port :: "config \<Rightarrow> int" where
  "get_port \<equiv> port"
abbreviation get_host :: "config \<Rightarrow> string" where
  "get_host \<equiv> host"
abbreviation is_persistence_enabled :: "config \<Rightarrow> bool" where
  "is_persistence_enabled \<equiv> persistence_enabled"
abbreviation get_persistence_file :: "config \<Rightarrow> string" where
  "get_persistence_file \<equiv> persistence_file"
abbreviation get_persistence_interval :: "config \<Rightarrow> int" where
  "get_persistence_interval \<equiv> persistence_interval"
abbreviation is_replication_enabled :: "config \<Rightarrow> bool" where
  "is_replication_enabled \<equiv> replication_enabled"
abbreviation get_replication_role :: "config \<Rightarrow> string" where
  "get_replication_role \<equiv> replication_role"
abbreviation get_replication_port :: "config \<Rightarrow> int" where
  "get_replication_port \<equiv> replication_port"
abbreviation get_master_host :: "config \<Rightarrow> string" where
  "get_master_host \<equiv> master_host"
abbreviation get_master_port :: "config \<Rightarrow> int" where
  "get_master_port \<equiv> master_port"
abbreviation is_clustering_enabled :: "config \<Rightarrow> bool" where
  "is_clustering_enabled \<equiv> clustering_enabled"
abbreviation get_cluster_port :: "config \<Rightarrow> int" where
  "get_cluster_port \<equiv> cluster_port"
abbreviation get_config_nodes :: "config \<Rightarrow> cluster_node_config list" where
  "get_config_nodes \<equiv> cluster_nodes"

section \<open>Setters\<close>

definition set_port :: "int \<Rightarrow> config \<Rightarrow> config" where
  "set_port p c = c\<lparr>port := p\<rparr>"
definition set_host :: "string \<Rightarrow> config \<Rightarrow> config" where
  "set_host h c = c\<lparr>host := h\<rparr>"
definition set_persistence_enabled :: "bool \<Rightarrow> config \<Rightarrow> config" where
  "set_persistence_enabled b c = c\<lparr>persistence_enabled := b\<rparr>"
definition set_persistence_file :: "string \<Rightarrow> config \<Rightarrow> config" where
  "set_persistence_file f c = c\<lparr>persistence_file := f\<rparr>"
definition set_persistence_interval :: "int \<Rightarrow> config \<Rightarrow> config" where
  "set_persistence_interval i c = c\<lparr>persistence_interval := i\<rparr>"
definition set_replication_enabled :: "bool \<Rightarrow> config \<Rightarrow> config" where
  "set_replication_enabled b c = c\<lparr>replication_enabled := b\<rparr>"
definition set_replication_role :: "string \<Rightarrow> config \<Rightarrow> config" where
  "set_replication_role r c = c\<lparr>replication_role := r\<rparr>"
definition set_replication_port :: "int \<Rightarrow> config \<Rightarrow> config" where
  "set_replication_port p c = c\<lparr>replication_port := p\<rparr>"
definition set_master_host :: "string \<Rightarrow> config \<Rightarrow> config" where
  "set_master_host h c = c\<lparr>master_host := h\<rparr>"
definition set_master_port :: "int \<Rightarrow> config \<Rightarrow> config" where
  "set_master_port p c = c\<lparr>master_port := p\<rparr>"
definition set_clustering_enabled :: "bool \<Rightarrow> config \<Rightarrow> config" where
  "set_clustering_enabled b c = c\<lparr>clustering_enabled := b\<rparr>"
definition set_cluster_port :: "int \<Rightarrow> config \<Rightarrow> config" where
  "set_cluster_port p c = c\<lparr>cluster_port := p\<rparr>"
definition add_cluster_node :: "string \<Rightarrow> int \<Rightarrow> bool \<Rightarrow> config \<Rightarrow> config" where
  "add_cluster_node h p m c = c\<lparr>cluster_nodes := cluster_nodes c @
     [\<lparr>node_host = h, node_port = p, node_is_master = m\<rparr>]\<rparr>"

section \<open>What a line does\<close>

lemma substr_never_cluster_node: "substr key 0 11 \<noteq> ''cluster_node''"
proof
  assume "substr key 0 11 = ''cluster_node''"
  then have "length (substr key 0 11) = 12" by simp
  then show False by (simp add: substr_def)
qed

lemma assign_cluster_nodes: "cluster_nodes (assign key value c) = cluster_nodes c"
  by (simp add: assign_def Let_def substr_never_cluster_node)

lemma load_line_cluster_nodes: "cluster_nodes (load_line l c) = cluster_nodes c"
  by (simp add: load_line_def assign_cluster_nodes split: option.splits)

lemma load_lines_cluster_nodes: "cluster_nodes (fold load_line ls c) = cluster_nodes c"
  by (induction ls arbitrary: c) (simp_all add: load_line_cluster_nodes)

text \<open>
  C31. No configuration file adds a cluster node: the loader compares the first eleven characters
  of a key with the twelve characters of \<open>cluster_node\<close>, so its branch is never taken and
  the list of nodes stays as it was.
\<close>

theorem load_never_adds_nodes: "cluster_nodes (snd (load file c)) = cluster_nodes c"
  by (simp add: load_def load_lines_cluster_nodes split: option.splits)

definition is_blank :: "char \<Rightarrow> bool" where
  "is_blank c \<longleftrightarrow> c = CHR '' '' \<or> c = tab"

definition trimmed :: "string \<Rightarrow> bool" where
  "trimmed s \<longleftrightarrow> s = [] \<or> \<not> is_blank (hd s) \<and> \<not> is_blank (last s)"

lemma set_blanks: "c \<in> set blanks \<longleftrightarrow> is_blank c"
  by (auto simp: blanks_def is_blank_def)

lemma dropWhile_padded:
  "\<forall>c \<in> set pad. P c \<Longrightarrow> dropWhile P (pad @ s) = dropWhile P s"
  by (simp add: dropWhile_append2)

lemma dropWhile_hd: "s = [] \<or> \<not> P (hd s) \<Longrightarrow> dropWhile P s = s"
  by (cases s) auto

lemma trim_padded:
  assumes "trimmed s" and "\<forall>c \<in> set pad. is_blank c" and "\<forall>c \<in> set pad'. is_blank c"
  shows "trim blanks (pad @ s @ pad') = s"
proof (cases "s = []")
  case True
  with assms(2,3) show ?thesis
    by (simp add: trim_def erase_front_eq erase_back_eq set_blanks dropWhile_padded dropWhile_all)
next
  case False
  have "dropWhile is_blank (pad @ s @ pad') = s @ pad'"
    using assms False by (simp only: dropWhile_padded)
      (intro dropWhile_hd, auto simp: trimmed_def)
  moreover have "dropWhile is_blank (rev pad' @ rev s) = rev s"
    using assms False by (simp add: dropWhile_padded)
      (intro dropWhile_hd, auto simp: trimmed_def hd_rev)
  ultimately show ?thesis
    by (simp add: trim_def erase_front_eq erase_back_eq set_blanks)
qed

lemma trim_trimmed: "trimmed s \<Longrightarrow> trim blanks s = s"
  using trim_padded [of s "[]" "[]"] by simp

text \<open>
  A line \<open>key = value\<close>, with any blanks around the key and the value, assigns the value to
  the key; a line that is empty, starts with \<open>#\<close> or \<open>;\<close>, or has no equals sign changes
  nothing.
\<close>

lemma load_line_meaning:
  assumes "trimmed key" and "trimmed value" and "CHR ''='' \<notin> set key"
    and "key \<noteq> [] \<and> hd key \<noteq> CHR ''#'' \<and> hd key \<noteq> CHR '';''"
    and "\<forall>c \<in> set (pad1 @ pad2 @ pad3 @ pad4). is_blank c"
  shows "load_line (pad1 @ key @ pad2 @ ''='' @ pad3 @ value @ pad4) c = assign key value c
    \<and> (l = [] \<or> hd l = CHR ''#'' \<or> hd l = CHR '';'' \<or> CHR ''='' \<notin> set l \<longrightarrow> load_line l c = c)"
proof -
  let ?k = "pad1 @ key @ pad2" and ?v = "pad3 @ value @ pad4"
  have pads: "\<forall>c \<in> set pad1. is_blank c" "\<forall>c \<in> set pad2. is_blank c"
    "\<forall>c \<in> set pad3. is_blank c" "\<forall>c \<in> set pad4. is_blank c"
    using assms(5) by simp_all
  have "\<not> is_blank (CHR ''='')" "\<not> is_blank (CHR ''#'')" "\<not> is_blank (CHR '';'')"
    by (simp_all add: is_blank_def)
  with pads assms(3,4) have eq: "CHR ''='' \<notin> set ?k"
    and hd: "hd (?k @ CHR ''='' # ?v) \<noteq> CHR ''#''" "hd (?k @ CHR ''='' # ?v) \<noteq> CHR '';''"
    by (cases pad1; fastforce)+
  have "load_line (?k @ CHR ''='' # ?v) c = assign (trim blanks ?k) (trim blanks ?v) c"
    using hd unfolding load_line_def find_char_append [OF eq] by (simp add: substr_def substr_from_def)
  also have "\<dots> = assign key value c"
    using assms(1,2) pads by (simp add: trim_padded)
  finally have "load_line (pad1 @ key @ pad2 @ ''='' @ pad3 @ value @ pad4) c = assign key value c"
    by simp
  moreover have "load_line l c = c" if "l = [] \<or> hd l = CHR ''#'' \<or> hd l = CHR '';'' \<or> CHR ''='' \<notin> set l"
    using that by (auto simp: load_line_def find_char_None [THEN iffD2])
  ultimately show ?thesis by blast
qed

section \<open>Ranges\<close>

definition config_ok :: "config \<Rightarrow> bool" where
  "config_ok c \<longleftrightarrow> fits32 (port c) \<and> fits32 (persistence_interval c) \<and> fits32 (replication_port c)
     \<and> fits32 (master_port c) \<and> fits32 (cluster_port c) \<and> (\<forall>n \<in> set (cluster_nodes c). fits32 (node_port n))"

lemma fits32_stoi_or: "fits32 old \<Longrightarrow> fits32 (stoi_or old value)"
  by (auto simp: stoi_or_def stoi_fits32 split: sum.splits)

lemma config_ok_assign: "config_ok c \<Longrightarrow> config_ok (assign key value c)"
  by (simp add: assign_def Let_def config_ok_def fits32_stoi_or substr_never_cluster_node)

lemma config_ok_load_line: "config_ok c \<Longrightarrow> config_ok (load_line l c)"
  by (simp add: load_line_def config_ok_assign split: option.splits)

lemma config_ok_lines: "config_ok c \<Longrightarrow> config_ok (fold load_line ls c)"
  by (induction ls arbitrary: c) (simp_all add: config_ok_load_line)

lemma config_ok_init: "config_ok config_init"
  by (simp add: config_ok_def config_init_def fits32_def)

text \<open>
  Whatever the file holds, every number of the configuration stays in the range of \<open>int\<close>: a
  number out of range is rejected and the previous one kept.
\<close>

lemma load_keeps_ranges:
  assumes "config_ok c"
  shows "config_ok (snd (load file c))"
  using assms by (simp add: load_def config_ok_lines split: option.splits)

section \<open>Writing a configuration\<close>

definition show_bool :: "bool \<Rightarrow> string" where
  "show_bool b = (if b then ''true'' else ''false'')"

definition settings :: "config \<Rightarrow> (string \<times> string) list" where
  "settings c =
     [(''port'', to_string (port c)), (''host'', host c),
      (''persistence_enabled'', show_bool (persistence_enabled c)),
      (''persistence_file'', persistence_file c),
      (''persistence_interval'', to_string (persistence_interval c)),
      (''replication_enabled'', show_bool (replication_enabled c)),
      (''replication_role'', replication_role c),
      (''replication_port'', to_string (replication_port c)),
      (''master_host'', master_host c), (''master_port'', to_string (master_port c)),
      (''clustering_enabled'', show_bool (clustering_enabled c)),
      (''cluster_port'', to_string (cluster_port c))]"

definition setting_line :: "string \<times> string \<Rightarrow> string" where
  "setting_line kv = fst kv @ ''='' @ snd kv"

definition render_config :: "config \<Rightarrow> string" where
  "render_config c = concat (map put_line (map setting_line (settings c)))"

definition plain_key :: "string \<Rightarrow> bool" where
  "plain_key k \<longleftrightarrow> k \<noteq> [] \<and> (\<forall>c \<in> set k. c \<notin> {CHR ''='', CHR ''#'', CHR '';'', CHR '' '', tab, newline})"

definition plain_value :: "string \<Rightarrow> bool" where
  "plain_value v \<longleftrightarrow> trimmed v \<and> newline \<notin> set v"

lemma is_token_plain: "is_token v \<Longrightarrow> plain_value v"
  by (auto simp: is_token_def plain_value_def trimmed_def is_blank_def)
    (metis hd_in_set last_in_set isspace_consts(3,4))+

lemma plain_to_string [simp]: "plain_value (to_string n)"
  by (rule is_token_plain, rule to_string_is_token)

lemma plain_show_bool [simp]: "plain_value (show_bool b)"
  by (simp add: show_bool_def plain_value_def trimmed_def is_blank_def)

lemma truthy_show_bool [simp]: "truthy (show_bool b) = b"
  by (simp add: truthy_def show_bool_def)

lemma stoi_or_to_string [simp]: "fits32 n \<Longrightarrow> stoi_or old (to_string n) = n"
  by (simp add: stoi_or_def)

lemma load_setting_line:
  assumes "plain_key k" and "plain_value v"
  shows "load_line (setting_line (k, v)) c = assign k v c"
proof -
  have hdk: "hd k \<in> set k" "last k \<in> set k" using assms(1) by (simp_all add: plain_key_def)
  then have k: "trimmed k" "CHR ''='' \<notin> set k" "k \<noteq> [] \<and> hd k \<noteq> CHR ''#'' \<and> hd k \<noteq> CHR '';''"
    using assms(1) by (fastforce simp: plain_key_def trimmed_def is_blank_def)+
  have "load_line (k @ ''='' @ v) c = assign (trim blanks k) (trim blanks v) c"
    using k find_char_append [OF k(2), of v]
    by (simp add: load_line_def substr_def substr_from_def)
  then show ?thesis
    using assms(2) k(1) by (simp add: setting_line_def plain_value_def trim_trimmed)
qed

lemma newline_setting_line: "plain_key k \<Longrightarrow> plain_value v \<Longrightarrow> newline \<notin> set (setting_line (k, v))"
  unfolding plain_key_def plain_value_def setting_line_def by fastforce

lemma load_settings:
  assumes "\<forall>(k, v) \<in> set kvs. plain_key k \<and> plain_value v"
  shows "fold load_line (getlines (concat (map put_line (map setting_line kvs)))) c
    = fold (\<lambda>(k, v). assign k v) kvs c"
proof -
  have "\<forall>l \<in> set (map setting_line kvs). newline \<notin> set l"
    using assms newline_setting_line by fastforce
  then have "getlines (concat (map put_line (map setting_line kvs)) @ []) = map setting_line kvs @ getlines []"
    by (rule getlines_concat)
  moreover have "fold load_line (map setting_line kvs) c = fold (\<lambda>(k, v). assign k v) kvs c"
    using assms by (induction kvs arbitrary: c) (auto simp: load_setting_line)
  ultimately show ?thesis by simp
qed

text \<open>
  C32. Round trip: a configuration written as one line per setting and loaded, over any
  configuration, gives back every setting but the cluster nodes, which stay those of the
  configuration loaded over, and the table of raw values, if its numbers are in range and its
  texts have no line break and no blank at either end.
\<close>

theorem load_render:
  assumes "config_ok c"
    and "\<forall>v \<in> {host c, persistence_file c, replication_role c, master_host c}. plain_value v"
  shows "fst (load (Some (render_config c)) c0)
    \<and> (snd (load (Some (render_config c)) c0))
        \<lparr>cluster_nodes := cluster_nodes c, config_values := config_values c\<rparr> = c
    \<and> cluster_nodes (snd (load (Some (render_config c)) c0)) = cluster_nodes c0"
proof -
  have "\<forall>(k, v) \<in> set (settings c). plain_key k \<and> plain_value v"
    using assms(2) by (simp add: settings_def plain_key_def)
  from load_settings [OF this, of c0]
  have "snd (load (Some (render_config c)) c0) = fold (\<lambda>(k, v). assign k v) (settings c) c0"
    by (simp only: load_def render_config_def option.case snd_conv)
  also have "(\<dots>)\<lparr>cluster_nodes := cluster_nodes c, config_values := config_values c\<rparr> = c"
    using assms(1) by (simp add: settings_def assign_def Let_def config_ok_def)
  finally have "(snd (load (Some (render_config c)) c0))
      \<lparr>cluster_nodes := cluster_nodes c, config_values := config_values c\<rparr> = c" .
  then show ?thesis by (simp add: load_def load_lines_cluster_nodes)
qed

text \<open>Loaded over another port and a node, which stays.\<close>

theorem load_render_witness:
  "let c0 = add_cluster_node ''a'' 7 True (set_port 1 config_init);
       c = snd (load (Some (render_config config_init)) c0)
   in fst (load (Some (render_config config_init)) c0)
    \<and> c\<lparr>cluster_nodes := [], config_values := umap_empty\<rparr> = config_init
    \<and> length (cluster_nodes c) = 1"
proof -
  have "\<forall>v \<in> {host config_init, persistence_file config_init, replication_role config_init,
      master_host config_init}. plain_value v"
    by (simp add: config_init_def plain_value_def trimmed_def is_blank_def)
  from load_render [OF config_ok_init this, of "add_cluster_node ''a'' 7 True (set_port 1 config_init)"]
  show ?thesis
    by (simp add: Let_def add_cluster_node_def set_port_def config_init_def [THEN arg_cong, of cluster_nodes]
        config_init_def [THEN arg_cong, of config_values])
qed

end
