(* ===== verification/Persistence.thy ===== *)
theory Persistence
  imports Session_Protocol
begin

text \<open>
  \<open>PersistenceManager\<close> (\<open>include/persistence.h\<close>, \<open>src/persistence.cpp\<close>): a text file with one
  section per keyspace, and the loader that reads the \<open>[STRINGS]\<close> section back (theory
  \<open>Persistence_Service\<close> has the threads). A file is its text; a file that cannot be read is
  \<open>None\<close>, and how writing one ends is an \<open>output_file\<close>. The lemmas: what a saved file holds, that loading
  it restores the live strings and nothing else, what calls of clients during the saving do
  to it, and what an equals sign in a key does.
\<close>

section \<open>Calls of other threads\<close>

text \<open>
  The saving thread holds no lock, so the server's threads go on calling \<open>Storage\<close>. The
  operations below take what is called at each point where the saving thread looks at
  something shared, the maps or the clock: before it copies the second, third and fourth map
  (\<open>Copying i\<close>) and before each item of section \<open>i\<close>, \<open>j\<close> items being left after it
  (\<open>Writing i j\<close>). A copy is made as a whole.
\<close>

datatype point = Copying nat | Writing nat nat

definition meanwhile :: "call list \<Rightarrow> unit act" where
  "meanwhile cs = State_Monad.update (perform_all cs)"

text \<open>What the saving thread relies on: what calls, and its own clock readings, keep.\<close>

definition later :: "world \<Rightarrow> world \<Rightarrow> bool" where
  "later w w' \<longleftrightarrow> clock w' = clock w \<and> iter_order w' = iter_order w \<and> reads w \<le> reads w'
     \<and> (store_wf w \<longrightarrow> store_wf w')"

lemma later_refl [simp]: "later w w"
  by (simp add: later_def)

lemma later_trans [trans]: "later a b \<Longrightarrow> later b c \<Longrightarrow> later a c"
  by (simp add: later_def)

lemma later_steady: "later w w' \<Longrightarrow> steady w \<Longrightarrow> steady w'"
  by (simp add: later_def steady_def)

lemma later_clock:
  assumes "steady w" and "later w w'" and "later w' w''"
  shows "clock w (reads w') \<le> clock w (reads w'')"
  using assms by (simp add: later_def steadyD)

lemma later_reads: "reads w \<le> n \<Longrightarrow> later w (w\<lparr>reads := n\<rparr>)"
  by (simp add: later_def store_wf_def)

lemma perform_reads: "call_ok c \<Longrightarrow> reads w \<le> reads (perform c w)"
  by (cases c) (simp_all add: exec_simps counter_after_def started_expire_def Let_def split: option.splits)

lemma later_perform: "call_ok c \<Longrightarrow> later w (perform c w)"
  unfolding later_def
  by (blast intro: perform_clock perform_iter_order perform_reads store_wf_perform)

lemma later_perform_all: "\<forall>c \<in> set cs. call_ok c \<Longrightarrow> later w (perform_all cs w)"
proof (induction cs arbitrary: w)
  case (Cons c cs)
  then have "later (perform c w) (perform_all cs (perform c w))" by simp
  with later_perform [of c w] Cons.prems show ?case by (auto intro: later_trans)
qed simp

section \<open>Saving\<close>

text \<open>
  \<open>createSnapshot\<close> copies the four maps through the accessors of \<open>Storage\<close>, which take no
  lock: it emits no event.
\<close>

type_synonym snapshot =
  "(string, DataItem) umap \<times> (string, HashItem) umap \<times> (string, ListItem) umap \<times> (string, SetItem) umap"

definition create_snapshot :: "(nat \<Rightarrow> call list) \<Rightarrow> snapshot act" where
  "create_snapshot gap = do {
     string_map \<leftarrow> query get_string_data;
     meanwhile (gap 1);
     hash_map \<leftarrow> query get_hash_data;
     meanwhile (gap 2);
     list_map \<leftarrow> query get_list_data;
     meanwhile (gap 3);
     set_map \<leftarrow> query get_set_data;
     State_Monad.return (string_map, hash_map, list_map, set_map)
   }"

text \<open>\<open>!has_expiry || expiry > now()\<close>: the clock is read only for an item with an expiry.\<close>

definition unexpired :: "'v item \<Rightarrow> bool act" where
  "unexpired item =
     (if \<not> has_expiry item then State_Monad.return True
      else do { t \<leftarrow> now; State_Monad.return (t < expiry item) })"

primrec save_section ::
  "(nat \<Rightarrow> call list) \<Rightarrow> (string \<Rightarrow> 'v \<Rightarrow> string) \<Rightarrow> (string \<times> 'v item) list \<Rightarrow> string act" where
  "save_section gap put [] = State_Monad.return []"
| "save_section gap put (e # es) = do {
     meanwhile (gap (length es));
     b \<leftarrow> unexpired (snd e);
     rest \<leftarrow> save_section gap put es;
     State_Monad.return ((if b then put (fst e) (contents (snd e)) else []) @ rest)
   }"

definition put_string_item :: "string \<Rightarrow> string \<Rightarrow> string" where
  "put_string_item key value = put_line (key @ ''='' @ value)"

definition put_hash_item ::
  "(string list \<Rightarrow> string list) \<Rightarrow> string \<Rightarrow> (string, string) umap \<Rightarrow> string" where
  "put_hash_item ord key flds =
     concat (map (\<lambda>(f, v). put_line (key @ ''.'' @ f @ ''='' @ v)) (umap_entries ord flds))"

definition put_list_item :: "string \<Rightarrow> string list \<Rightarrow> string" where
  "put_list_item key vals =
     concat (map (\<lambda>(i, v). put_line (key @ ''['' @ to_string (int i) @ '']='' @ v)) (enumerate 0 vals))"

definition put_set_item ::
  "(string list \<Rightarrow> string list) \<Rightarrow> string \<Rightarrow> (string, bool) umap \<Rightarrow> string" where
  "put_set_item ord key members =
     concat (map (\<lambda>(m, _). put_line (key @ ''.'' @ m @ ''=1'')) (umap_entries ord members))"

definition write_snapshot :: "(point \<Rightarrow> call list) \<Rightarrow> snapshot \<Rightarrow> string act" where
  "write_snapshot gap snap = (case snap of (string_map, hash_map, list_map, set_map) \<Rightarrow> do {
     ord \<leftarrow> query iter_order;
     s \<leftarrow> save_section (\<lambda>j. gap (Writing 0 j)) put_string_item (umap_entries ord string_map);
     h \<leftarrow> save_section (\<lambda>j. gap (Writing 1 j)) (put_hash_item ord) (umap_entries ord hash_map);
     l \<leftarrow> save_section (\<lambda>j. gap (Writing 2 j)) put_list_item (umap_entries ord list_map);
     m \<leftarrow> save_section (\<lambda>j. gap (Writing 3 j)) (put_set_item ord) (umap_entries ord set_map);
     State_Monad.return (put_line ''[STRINGS]'' @ s @ put_line ''[HASHES]'' @ h
       @ put_line ''[LISTS]'' @ l @ put_line ''[SETS]'' @ m)
   })"

type_synonym disk = "string \<Rightarrow> string option"

text \<open>
  How the output file fares: it cannot be opened, everything is written, or the writes after
  the first \<open>n\<close> bytes fail. \<open>saveToFile\<close> looks at the first only; opening empties the file.
\<close>

datatype output_file = Cannot_open | Written | Cut_short nat

definition save_to_file :: "(point \<Rightarrow> call list) \<Rightarrow> output_file \<Rightarrow> string \<Rightarrow> disk \<Rightarrow> (bool \<times> disk) act" where
  "save_to_file gap out filename disk = do {
     snap \<leftarrow> create_snapshot (\<lambda>i. gap (Copying i));
     if out = Cannot_open then State_Monad.return (False, disk)
     else do {
       txt \<leftarrow> write_snapshot gap snap;
       State_Monad.return (True, disk(filename \<mapsto> (case out of Cut_short n \<Rightarrow> take n txt | _ \<Rightarrow> txt)))
     }
   }"

text \<open>No call during the saving, and a saving during which calls are in their 64 bits.\<close>

definition undisturbed :: "point \<Rightarrow> call list" where
  "undisturbed p = []"

definition gap_ok :: "('p \<Rightarrow> call list) \<Rightarrow> bool" where
  "gap_ok gap \<longleftrightarrow> (\<forall>p. \<forall>c \<in> set (gap p). call_ok c)"

section \<open>Loading\<close>

primrec load_lines :: "string list \<Rightarrow> string \<Rightarrow> unit act" where
  "load_lines [] section = State_Monad.return ()"
| "load_lines (l # ls) section =
     (if l = [] then load_lines ls section
      else if hd l = CHR ''['' \<and> last l = CHR '']'' then load_lines ls (substr l 1 (length l - 2))
      else case find_char (CHR ''='') l of
          None \<Rightarrow> load_lines ls section
        | Some equals_pos \<Rightarrow>
            if section = ''STRINGS'' then do {
              _ \<leftarrow> storage_set (substr l 0 equals_pos) (substr_from l (equals_pos + 1));
              load_lines ls section
            } else load_lines ls section)"

definition load_from_file :: "string \<Rightarrow> disk \<Rightarrow> bool act" where
  "load_from_file filename disk = (case disk filename of
     None \<Rightarrow> State_Monad.return False
   | Some txt \<Rightarrow> do { load_lines (getlines txt) []; State_Monad.return True })"

text \<open>The helpers of the header that are still stubs in the source.\<close>

definition serialize_string_data :: "(string, DataItem) umap \<Rightarrow> string" where
  "serialize_string_data data = []"
definition serialize_hash_data :: "(string, HashItem) umap \<Rightarrow> string" where
  "serialize_hash_data data = []"
definition serialize_list_data :: "(string, ListItem) umap \<Rightarrow> string" where
  "serialize_list_data data = []"
definition deserialize_string_data :: "string \<Rightarrow> unit act" where
  "deserialize_string_data data = State_Monad.return ()"
definition deserialize_hash_data :: "string \<Rightarrow> unit act" where
  "deserialize_hash_data data = State_Monad.return ()"
definition deserialize_list_data :: "string \<Rightarrow> unit act" where
  "deserialize_list_data data = State_Monad.return ()"

section \<open>What a section holds\<close>

lemma run_unexpired:
  "run_state (unexpired item) w =
     (\<not> has_expiry item \<or> clock w (reads w) < expiry item,
      w\<lparr>reads := reads w + (if has_expiry item then 1 else 0)\<rparr>)"
  by (simp add: unexpired_def)

lemma run_meanwhile [simp]: "run_state (meanwhile cs) w = ((), perform_all cs w)"
  by (simp add: meanwhile_def)

lemma save_section_run:
  assumes "steady w" and "gap_ok gap"
  shows "\<exists>kept w'. run_state (save_section gap put es) w =
      (concat (map (\<lambda>(k, item). put k (contents item)) kept), w')
    \<and> later w w' \<and> set kept \<subseteq> set es \<and> (distinct (map fst es) \<longrightarrow> distinct (map fst kept))
    \<and> (\<forall>(k, item) \<in> set kept. has_expiry item \<longrightarrow> clock w (reads w) < expiry item)
    \<and> (\<forall>(k, item) \<in> set es. (has_expiry item \<longrightarrow> clock w (reads w') < expiry item) \<longrightarrow> (k, item) \<in> set kept)"
  using assms(1)
proof (induction es arbitrary: w)
  case Nil
  show ?case by (intro exI [of _ "[]"] exI [of _ w]) simp
next
  case (Cons e es)
  obtain k item where e: "e = (k, item)" by (cases e)
  define v where "v = perform_all (gap (length es)) w"
  let ?v = "v\<lparr>reads := reads v + (if has_expiry item then 1 else 0)\<rparr>"
  let ?keep = "\<not> has_expiry item \<or> clock w (reads v) < expiry item"
  have v: "later w v" using assms(2) by (simp add: v_def gap_ok_def later_perform_all)
  have v': "later v ?v" by (rule later_reads) simp
  obtain kept w' where IH: "run_state (save_section gap put es) ?v =
      (concat (map (\<lambda>(k, item). put k (contents item)) kept), w')"
    "later ?v w'" "set kept \<subseteq> set es" "distinct (map fst es) \<longrightarrow> distinct (map fst kept)"
    "\<forall>(k, item) \<in> set kept. has_expiry item \<longrightarrow> clock w (reads ?v) < expiry item"
    "\<forall>(k, item) \<in> set es. (has_expiry item \<longrightarrow> clock w (reads w') < expiry item) \<longrightarrow> (k, item) \<in> set kept"
    using Cons.IH [of ?v] later_steady [OF later_trans [OF v v'] Cons.prems] v by (auto simp: later_def)
  have vw: "later v w'" using v' IH(2) by (rule later_trans)
  have le: "clock w (reads w) \<le> clock w (reads v)" "clock w (reads v) \<le> clock w (reads ?v)"
    "clock w (reads v) \<le> clock w (reads w')"
    using later_clock [OF Cons.prems later_refl v] later_clock [OF Cons.prems v v']
      later_clock [OF Cons.prems v vw] .
  let ?kept = "(if ?keep then [(k, item)] else []) @ kept"
  have "run_state (save_section gap put (e # es)) w =
      (concat (map (\<lambda>(k, item). put k (contents item)) ?kept), w')"
    using IH(1) v by (simp add: e run_unexpired v_def [symmetric] later_def)
  moreover have "later w w'" using v vw by (rule later_trans)
  moreover have "set ?kept \<subseteq> set (e # es)" using IH(3) by (auto simp: e)
  moreover have "distinct (map fst (e # es)) \<longrightarrow> distinct (map fst ?kept)"
    using IH(3,4) by (auto simp: e)
  moreover have "\<forall>(k, item) \<in> set ?kept. has_expiry item \<longrightarrow> clock w (reads w) < expiry item"
    using IH(5) le(1,2) by fastforce
  moreover have "\<forall>(k, item) \<in> set (e # es). (has_expiry item \<longrightarrow> clock w (reads w') < expiry item)
      \<longrightarrow> (k, item) \<in> set ?kept"
    using IH(6) le(3) by (fastforce simp: e)
  ultimately show ?case by blast
qed

section \<open>What loading reads\<close>

definition kv_line :: "string \<times> string \<Rightarrow> string" where
  "kv_line kv = fst kv @ ''='' @ snd kv"

primrec set_calls :: "(string \<times> string) list \<Rightarrow> call list" where
  "set_calls [] = []"
| "set_calls (kv # kvs) = Call_set (fst kv) (snd kv) # set_calls kvs"

lemma load_kv_line:
  assumes "CHR ''='' \<notin> set k" and "k = [] \<or> hd k \<noteq> CHR ''[''"
  shows "run_state (load_lines (kv_line (k, v) # ls) ''STRINGS'') w =
    run_state (load_lines ls ''STRINGS'') (perform (Call_set k v) w)"
proof -
  have "hd (k @ CHR ''='' # v) \<noteq> CHR ''[''" using assms(2) by (cases k) auto
  moreover have "find_char (CHR ''='') (k @ CHR ''='' # v) = Some (length k)"
    using assms(1) by (rule find_char_append)
  ultimately show ?thesis
    by (simp add: kv_line_def substr_def substr_from_def perform.simps State_Monad.run_state_bind case_prod_beta')
qed

lemma load_kv_lines:
  assumes "\<forall>(k, v) \<in> set kvs. CHR ''='' \<notin> set k \<and> (k = [] \<or> hd k \<noteq> CHR ''['')"
  shows "run_state (load_lines (map kv_line kvs @ ls) ''STRINGS'') w =
    run_state (load_lines ls ''STRINGS'') (perform_all (set_calls kvs) w)"
  using assms
proof (induction kvs arbitrary: w)
  case Nil
  show ?case by simp
next
  case (Cons kv kvs)
  obtain k v where kv: "kv = (k, v)" by (cases kv)
  have "CHR ''='' \<notin> set k" "k = [] \<or> hd k \<noteq> CHR ''[''" using Cons.prems by (simp_all add: kv)
  note line = load_kv_line [OF this, of v "map kv_line kvs @ ls" w]
  have "\<forall>(k, v) \<in> set kvs. CHR ''='' \<notin> set k \<and> (k = [] \<or> hd k \<noteq> CHR ''['')"
    using Cons.prems by simp
  from Cons.IH [OF this] line show ?case
    by (simp only: kv list.map append_Cons set_calls.simps perform_all.simps fst_conv snd_conv)
qed

lemma header_keeps:
  assumes "hd l = CHR ''[''" and "last l = CHR '']''" and "l \<noteq> []" and "CHR ''='' \<in> set l"
  shows "CHR ''='' \<in> set (substr l 1 (length l - 2))"
proof -
  obtain m where l: "l = CHR ''['' # m" using assms(1,3) by (cases l) auto
  with assms(4) have "m \<noteq> []" by auto
  then obtain m' x where m: "m = m' @ [x]" by (metis rev_exhaust)
  with l assms(2) have "x = CHR '']''" by simp
  with l m assms(4) have "CHR ''='' \<in> set m'" by simp
  moreover have "substr l 1 (length l - 2) = m'"
    by (simp add: l m substr_def)
  ultimately show ?thesis by simp
qed

lemma load_other_lines:
  assumes "\<forall>l \<in> set ls. CHR ''='' \<in> set l" and "section \<noteq> ''STRINGS''"
  shows "\<exists>section'. section' \<noteq> ''STRINGS'' \<and>
    run_state (load_lines (ls @ rest) section) w = run_state (load_lines rest section') w"
  using assms
proof (induction ls arbitrary: "section")
  case Nil
  then show ?case by auto
next
  case (Cons l ls)
  have l: "l \<noteq> []" "CHR ''='' \<in> set l" using Cons.prems(1) by auto
  show ?case
  proof (cases "hd l = CHR ''['' \<and> last l = CHR '']''")
    case True
    with l have "CHR ''='' \<in> set (substr l 1 (length l - 2))" by (intro header_keeps) auto
    then have "substr l 1 (length l - 2) \<noteq> ''STRINGS''" by auto
    with Cons.IH Cons.prems(1) True l show ?thesis by simp
  next
    case False
    with Cons l show ?thesis by (auto split: option.splits)
  qed
qed

lemma load_header:
  assumes "h \<noteq> []" and "hd h \<noteq> CHR ''=''"
  shows "load_lines ((''['' @ h @ '']'') # ls) section = load_lines ls h"
  by (simp add: substr_def)

lemma purge_empty [simp]: "purge t key umap_empty = umap_empty"
  by (simp add: purge_def um.find_empty)

lemma find_set_calls:
  "umap_find k (string_data (perform_all (set_calls kvs) w)) = (case map_of (rev kvs) k of
      Some v \<Rightarrow> Some (new_item v) | None \<Rightarrow> umap_find k (string_data w))"
proof (induction kvs arbitrary: w)
  case (Cons kv kvs)
  have "umap_find k (string_data (perform (Call_set (fst kv) (snd kv)) w)) =
      (if k = fst kv then Some (new_item (snd kv)) else umap_find k (string_data w))"
    by (simp add: exec_simps um.find_put find_purge_other)
  then show ?case
    by (simp add: Cons.IH map_add_def split: option.splits)
qed simp

lemma set_calls_other_maps:
  assumes "hash_data w = umap_empty \<and> list_data w = umap_empty \<and> set_data w = umap_empty"
  shows "hash_data (perform_all (set_calls kvs) w) = umap_empty
    \<and> list_data (perform_all (set_calls kvs) w) = umap_empty
    \<and> set_data (perform_all (set_calls kvs) w) = umap_empty"
  using assms by (induction kvs arbitrary: w) (simp_all add: exec_simps)

section \<open>A saved file, loaded\<close>

text \<open>
  What the format can hold: no line break in any key or text, and no string key that contains
  an equals sign or starts with an opening bracket.
\<close>

definition savable :: "snapshot \<Rightarrow> bool" where
  "savable snap \<longleftrightarrow> (case snap of (string_map, hash_map, list_map, set_map) \<Rightarrow>
     (\<forall>k item. umap_find k string_map = Some item \<longrightarrow>
        newline \<notin> set k \<and> CHR ''='' \<notin> set k \<and> (k = [] \<or> hd k \<noteq> CHR ''['')
        \<and> newline \<notin> set (contents item))
   \<and> (\<forall>k item. umap_find k hash_map = Some item \<longrightarrow> newline \<notin> set k
        \<and> (\<forall>f v. umap_find f (contents item) = Some v \<longrightarrow> newline \<notin> set f \<and> newline \<notin> set v))
   \<and> (\<forall>k item. umap_find k list_map = Some item \<longrightarrow> newline \<notin> set k
        \<and> (\<forall>v \<in> set (contents item). newline \<notin> set v))
   \<and> (\<forall>k item. umap_find k set_map = Some item \<longrightarrow> newline \<notin> set k
        \<and> (\<forall>m \<in> keyset (contents item). newline \<notin> set m)))"

text \<open>A text made of lines with an equals sign.\<close>

definition eq_lines :: "string \<Rightarrow> bool" where
  "eq_lines s \<longleftrightarrow> (\<exists>ls. s = concat (map put_line ls) \<and> (\<forall>l \<in> set ls. newline \<notin> set l \<and> CHR ''='' \<in> set l))"

lemma eq_lines_concat:
  assumes "\<And>x. x \<in> set xs \<Longrightarrow> eq_lines (f x)"
  shows "eq_lines (concat (map f xs))"
  using assms
proof (induction xs)
  case Nil
  show ?case unfolding eq_lines_def by (intro exI [of _ "[]"]) simp
next
  case (Cons x xs)
  have "eq_lines (f x)" "eq_lines (concat (map f xs))" using Cons by simp_all
  then obtain ls ms where ls: "f x = concat (map put_line ls)"
      "\<forall>l \<in> set ls. newline \<notin> set l \<and> CHR ''='' \<in> set l"
    and ms: "concat (map f xs) = concat (map put_line ms)"
      "\<forall>l \<in> set ms. newline \<notin> set l \<and> CHR ''='' \<in> set l"
    unfolding eq_lines_def by blast
  have "concat (map f (x # xs)) = concat (map put_line (ls @ ms))" by (simp add: ls(1) ms(1))
  moreover have "\<forall>l \<in> set (ls @ ms). newline \<notin> set l \<and> CHR ''='' \<in> set l"
    using ls(2) ms(2) by (simp add: ball_Un)
  ultimately show ?case unfolding eq_lines_def by blast
qed

lemma eq_lines_line: "newline \<notin> set l \<Longrightarrow> CHR ''='' \<in> set l \<Longrightarrow> eq_lines (put_line l)"
  unfolding eq_lines_def by (intro exI [of _ "[l]"]) simp

lemma put_string_item_line: "put_string_item k v = put_line (kv_line (k, v))"
  by (simp add: put_string_item_def kv_line_def)

lemma load_text:
  assumes kvs: "\<forall>(k, v) \<in> set kvs. CHR ''='' \<notin> set k \<and> (k = [] \<or> hd k \<noteq> CHR ''['')
      \<and> newline \<notin> set k \<and> newline \<notin> set v"
    and "eq_lines h" and "eq_lines l" and "eq_lines m"
    and layout: "txt = put_line ''[STRINGS]'' @ concat (map put_line (map kv_line kvs)) @ put_line ''[HASHES]'' @ h
       @ put_line ''[LISTS]'' @ l @ put_line ''[SETS]'' @ m"
  shows "run_state (load_lines (getlines txt) []) w = ((), perform_all (set_calls kvs) w)"
proof -
  obtain hs ls ms where eqs: "h = concat (map put_line hs)" "l = concat (map put_line ls)"
      "m = concat (map put_line ms)"
    and eq: "\<forall>x \<in> set hs. newline \<notin> set x \<and> CHR ''='' \<in> set x"
      "\<forall>x \<in> set ls. newline \<notin> set x \<and> CHR ''='' \<in> set x"
      "\<forall>x \<in> set ms. newline \<notin> set x \<and> CHR ''='' \<in> set x"
    using assms(2-4) unfolding eq_lines_def by blast
  let ?lines = "''[STRINGS]'' # map kv_line kvs @ ''[HASHES]'' # hs @ ''[LISTS]'' # ls @ ''[SETS]'' # ms"
  have "\<forall>x \<in> set (map kv_line kvs). newline \<notin> set x" using kvs by (auto simp: kv_line_def)
  with eq have nl: "\<forall>x \<in> set ?lines. newline \<notin> set x"
    by (simp add: ball_Un)
  have "txt = concat (map put_line ?lines) @ []" by (simp add: layout eqs)
  then have "getlines txt = ?lines @ getlines []" using getlines_concat [OF nl] by (simp only:)
  then have lines: "getlines txt = ?lines" by simp
  have head: "load_lines (''[STRINGS]'' # xs) s = load_lines xs ''STRINGS''"
    "load_lines (''[HASHES]'' # xs) s = load_lines xs ''HASHES''"
    "load_lines (''[LISTS]'' # xs) s = load_lines xs ''LISTS''"
    "load_lines (''[SETS]'' # xs) s = load_lines xs ''SETS''" for xs s
    by (simp_all add: substr_def)
  let ?w = "perform_all (set_calls kvs) w"
  have "\<exists>s. run_state (load_lines (hs @ ''[LISTS]'' # ls @ ''[SETS]'' # ms) ''HASHES'') ?w
      = run_state (load_lines (''[LISTS]'' # ls @ ''[SETS]'' # ms) s) ?w"
    using load_other_lines [of hs "''HASHES''"] eq(1) by blast
  moreover have "\<exists>s. run_state (load_lines (ls @ ''[SETS]'' # ms) ''LISTS'') ?w
      = run_state (load_lines (''[SETS]'' # ms) s) ?w"
    using load_other_lines [of ls "''LISTS''"] eq(2) by blast
  moreover have "\<exists>s. run_state (load_lines (ms @ []) ''SETS'') ?w = run_state (load_lines [] s) ?w"
    using load_other_lines [of ms "''SETS''"] eq(3) by blast
  moreover have "run_state (load_lines (map kv_line kvs @ ''[HASHES]'' # hs @ ''[LISTS]'' # ls @ ''[SETS]'' # ms) ''STRINGS'') w
      = run_state (load_lines (''[HASHES]'' # hs @ ''[LISTS]'' # ls @ ''[SETS]'' # ms) ''STRINGS'') ?w"
    using kvs by (intro load_kv_lines) auto
  ultimately show ?thesis
    unfolding lines head by (auto simp: run_state_return)
qed

lemma eq_lines_section:
  assumes "\<And>k item. (k, item) \<in> set es \<Longrightarrow> eq_lines (put k (contents item))"
  shows "eq_lines (concat (map (\<lambda>(k, item). put k (contents item)) es))"
  using assms by (intro eq_lines_concat) auto

lemma eq_lines_hash:
  assumes "enumerates ord" and "newline \<notin> set k"
    and "\<forall>f v. umap_find f flds = Some v \<longrightarrow> newline \<notin> set f \<and> newline \<notin> set v"
  shows "eq_lines (put_hash_item ord k flds)"
  unfolding put_hash_item_def
  using assms by (intro eq_lines_concat) (auto simp: set_umap_entries intro!: eq_lines_line)

lemma eq_lines_set:
  assumes "enumerates ord" and "newline \<notin> set k" and "\<forall>m \<in> keyset members. newline \<notin> set m"
  shows "eq_lines (put_set_item ord k members)"
  unfolding put_set_item_def
  using assms by (intro eq_lines_concat) (auto simp: set_umap_entries um.in_keys intro!: eq_lines_line)

lemma newline_to_string: "newline \<notin> set (to_string n)"
  using one_line_to_string [of n] unfolding one_line_def by simp

lemma eq_lines_list:
  assumes "newline \<notin> set k" and "\<forall>v \<in> set vals. newline \<notin> set v"
  shows "eq_lines (put_list_item k vals)"
proof -
  have "snd e \<in> set vals" if "e \<in> set (enumerate 0 vals)" for e
  proof -
    from that have "snd e \<in> set (map snd (enumerate 0 vals))" by (simp only: set_map imageI)
    then show ?thesis by (simp only: map_snd_enumerate)
  qed
  with assms show ?thesis
    unfolding put_list_item_def
    by (intro eq_lines_concat) (auto simp: newline_to_string intro!: eq_lines_line)
qed

text \<open>What is written: the string items kept, and lines with an equals sign elsewhere.\<close>

lemma savable_entries:
  assumes "savable (sm, hm, lm, mm)" and "enumerates ord"
  shows "(k, i1) \<in> set (umap_entries ord sm) \<Longrightarrow>
      newline \<notin> set k \<and> CHR ''='' \<notin> set k \<and> (k = [] \<or> hd k \<noteq> CHR ''['') \<and> newline \<notin> set (contents i1)"
    and "(k, i2) \<in> set (umap_entries ord hm) \<Longrightarrow> eq_lines (put_hash_item ord k (contents i2))"
    and "(k, i3) \<in> set (umap_entries ord lm) \<Longrightarrow> eq_lines (put_list_item k (contents i3))"
    and "(k, i4) \<in> set (umap_entries ord mm) \<Longrightarrow> eq_lines (put_set_item ord k (contents i4))"
  using assms unfolding savable_def
  by (simp_all add: set_umap_entries eq_lines_hash eq_lines_list eq_lines_set)

text \<open>A section whose items are lines with an equals sign.\<close>

lemma save_section_eq_lines:
  assumes "steady w" and "gap_ok gap"
    and "\<And>k item. (k, item) \<in> set es \<Longrightarrow> eq_lines (put k (contents item))"
  shows "\<exists>s w'. run_state (save_section gap put es) w = (s, w') \<and> later w w' \<and> eq_lines s"
proof -
  obtain kept w' where "run_state (save_section gap put es) w =
      (concat (map (\<lambda>(k, item). put k (contents item)) kept), w')" "later w w'" "set kept \<subseteq> set es"
    using save_section_run [OF assms(1,2), of put es] by blast
  moreover from this(3) have "eq_lines (concat (map (\<lambda>(k, item). put k (contents item)) kept))"
    by (intro eq_lines_section assms(3)) blast
  ultimately show ?thesis by blast
qed

lemma write_snapshot_run:
  assumes "steady w" and "gap_ok gap" and "enumerates (iter_order w)" and "savable (sm, hm, lm, mm)"
    and "umap_wf sm"
  shows "\<exists>kept h l m w1 w'. run_state (write_snapshot gap (sm, hm, lm, mm)) w =
      (put_line ''[STRINGS]'' @ concat (map put_line (map kv_line (map (\<lambda>(k, item). (k, contents item)) kept)))
         @ put_line ''[HASHES]'' @ h @ put_line ''[LISTS]'' @ l @ put_line ''[SETS]'' @ m, w')
    \<and> eq_lines h \<and> eq_lines l \<and> eq_lines m \<and> later w w1 \<and> later w1 w'
    \<and> set kept \<subseteq> set (umap_entries (iter_order w) sm) \<and> distinct (map fst kept)
    \<and> (\<forall>(k, item) \<in> set kept. has_expiry item \<longrightarrow> clock w (reads w) < expiry item)
    \<and> (\<forall>(k, item) \<in> set (umap_entries (iter_order w) sm).
          (has_expiry item \<longrightarrow> clock w (reads w1) < expiry item) \<longrightarrow> (k, item) \<in> set kept)"
proof -
  let ?o = "iter_order w"
  have gap: "gap_ok (\<lambda>j. gap (Writing i j))" for i using assms(2) by (simp add: gap_ok_def)
  note entries = savable_entries [OF assms(4,3)]
  have dist: "distinct (map fst (umap_entries ?o sm))"
    using assms(3,5) by (simp add: keys_umap_entries distinct_enumerates um.distinct_keys)
  obtain ks w1 where s: "run_state (save_section (\<lambda>j. gap (Writing 0 j)) put_string_item (umap_entries ?o sm)) w =
      (concat (map (\<lambda>(k, item). put_string_item k (contents item)) ks), w1)"
    "later w w1" "set ks \<subseteq> set (umap_entries ?o sm)" "distinct (map fst ks)"
    "\<forall>(k, item) \<in> set ks. has_expiry item \<longrightarrow> clock w (reads w) < expiry item"
    "\<forall>(k, item) \<in> set (umap_entries ?o sm).
       (has_expiry item \<longrightarrow> clock w (reads w1) < expiry item) \<longrightarrow> (k, item) \<in> set ks"
    using save_section_run [OF assms(1) gap] dist by blast
  have w1: "steady w1" using s(2) assms(1) by (rule later_steady)
  obtain h w2 where h: "run_state (save_section (\<lambda>j. gap (Writing 1 j)) (put_hash_item ?o) (umap_entries ?o hm)) w1 = (h, w2)"
    "later w1 w2" "eq_lines h"
    using save_section_eq_lines [OF w1 gap [of 1], of "umap_entries ?o hm" "put_hash_item ?o"] entries(2) by blast
  have w2: "steady w2" using h(2) w1 by (rule later_steady)
  obtain l w3 where l: "run_state (save_section (\<lambda>j. gap (Writing 2 j)) put_list_item (umap_entries ?o lm)) w2 = (l, w3)"
    "later w2 w3" "eq_lines l"
    using save_section_eq_lines [OF w2 gap [of 2], of "umap_entries ?o lm" put_list_item] entries(3) by blast
  have w3: "steady w3" using l(2) w2 by (rule later_steady)
  obtain m w4 where m: "run_state (save_section (\<lambda>j. gap (Writing 3 j)) (put_set_item ?o) (umap_entries ?o mm)) w3 = (m, w4)"
    "later w3 w4" "eq_lines m"
    using save_section_eq_lines [OF w3 gap [of 3], of "umap_entries ?o mm" "put_set_item ?o"] entries(4) by blast
  have "map (\<lambda>(k, item). put_string_item k (contents item)) ks =
      map put_line (map kv_line (map (\<lambda>(k, item). (k, contents item)) ks))"
    by (simp add: put_string_item_line split_beta)
  with s(1) h(1) l(1) m(1) have "run_state (write_snapshot gap (sm, hm, lm, mm)) w =
      (put_line ''[STRINGS]'' @ concat (map put_line (map kv_line (map (\<lambda>(k, item). (k, contents item)) ks)))
         @ put_line ''[HASHES]'' @ h @ put_line ''[LISTS]'' @ l @ put_line ''[SETS]'' @ m, w4)"
    by (simp add: write_snapshot_def)
  moreover have "later w1 w4" using h(2) l(2) m(2) by (blast intro: later_trans)
  ultimately show ?thesis using s(2-6) h(3) l(3) m(3) by blast
qed

text \<open>The first map of a snapshot is that of the moment at which the saving begins.\<close>

lemma create_snapshot_run:
  assumes "gap_ok gap"
  shows "\<exists>hm lm mm w'. run_state (create_snapshot gap) w = ((string_data w, hm, lm, mm), w') \<and> later w w'"
proof -
  have step: "later v (perform_all (gap i) v)" for v i
    using assms by (simp add: gap_ok_def later_perform_all)
  have "later w (perform_all (gap 3) (perform_all (gap 2) (perform_all (gap 1) w)))"
    by (blast intro: step later_trans)
  then show ?thesis by (simp add: create_snapshot_def)
qed

lemma disk_round_trip:
  assumes "disk' = disk(f \<mapsto> txt)"
    and "run_state (load_lines (getlines txt) []) v = ((), v')"
  shows "run_state (load_from_file f disk') v = (True, v')"
  using assms by (simp add: load_from_file_def)

lemma storage_init_maps [simp]:
  "string_data (storage_init clk ord) = umap_empty" "hash_data (storage_init clk ord) = umap_empty"
  "list_data (storage_init clk ord) = umap_empty" "set_data (storage_init clk ord) = umap_empty"
  by (simp_all add: storage_init_def)

text \<open>Setting the kept items one after the other on a fresh storage.\<close>

lemma find_loaded:
  assumes "distinct (map fst kept)"
  shows "umap_find k (string_data (perform_all (set_calls (map (\<lambda>(k, item). (k, contents item)) kept))
      (storage_init clk ord))) = Some item \<longleftrightarrow> (\<exists>item0. (k, item0) \<in> set kept \<and> item = new_item (contents item0))"
    (is "umap_find k (string_data ?w) = _ \<longleftrightarrow> _")
proof -
  let ?kvs = "map (\<lambda>(k, item). (k, contents item)) kept"
  have "map fst ?kvs = map fst kept" by (simp add: comp_def split_beta)
  then have "distinct (map fst (rev ?kvs))" using assms by (simp only: rev_map [symmetric] distinct_rev)
  then have "map_of (rev ?kvs) k = Some v \<longleftrightarrow> (k, v) \<in> set ?kvs" for v
    by (simp only: map_of_eq_Some_iff set_rev)
  then have "map_of (rev ?kvs) k = Some v \<longleftrightarrow> (\<exists>item0. (k, item0) \<in> set kept \<and> v = contents item0)" for v
    by force
  moreover have "umap_find k (string_data ?w) = map_option new_item (map_of (rev ?kvs) k)"
    unfolding find_set_calls by (cases "map_of (rev ?kvs) k") (simp_all add: um.find_empty)
  ultimately show ?thesis by (simp only: map_option_eq_Some) blast
qed

text \<open>The strings found after loading, from the items kept: \<open>t0\<close> before and \<open>t1\<close> after the writing.\<close>

lemma find_kept:
  assumes "enumerates ord" and "set kept \<subseteq> set (umap_entries ord m)"
    and "\<forall>(k, item) \<in> set kept. has_expiry item \<longrightarrow> t0 < expiry item"
    and "\<forall>(k, item) \<in> set (umap_entries ord m). (has_expiry item \<longrightarrow> t1 < expiry item) \<longrightarrow> (k, item) \<in> set kept"
    and find: "\<And>k item. umap_find k m' = Some item \<longleftrightarrow> (\<exists>item0. (k, item0) \<in> set kept \<and> item = new_item (contents item0))"
    and "t \<le> t0" and "t1 \<le> t'"
  shows "\<forall>k item. umap_find k m' = Some item \<longrightarrow> (\<exists>item0. umap_find k m = Some item0
      \<and> item = new_item (contents item0) \<and> (has_expiry item0 \<longrightarrow> t < expiry item0))"
    and "\<forall>k item0. umap_find k m = Some item0 \<and> (has_expiry item0 \<longrightarrow> t' < expiry item0) \<longrightarrow>
      umap_find k m' = Some (new_item (contents item0))"
proof -
  note entry = set_umap_entries [OF assms(1), of _ _ m]
  show "\<forall>k item. umap_find k m' = Some item \<longrightarrow> (\<exists>item0. umap_find k m = Some item0
      \<and> item = new_item (contents item0) \<and> (has_expiry item0 \<longrightarrow> t < expiry item0))"
    unfolding find entry [symmetric] using assms(2,3,6) by fastforce
  show "\<forall>k item0. umap_find k m = Some item0 \<and> (has_expiry item0 \<longrightarrow> t' < expiry item0) \<longrightarrow>
      umap_find k m' = Some (new_item (contents item0))"
    unfolding find entry [symmetric] using assms(4,7) by fastforce
qed

text \<open>
  Save and load: a file written by \<open>saveToFile\<close> and loaded into a fresh storage restores only
  strings that were stored and had not expired when the saving began, with the value they
  had and without an expiry; it restores every string that expires only after the saving
  has ended, or never; and no hash, list or set. Calls of clients during the saving make no
  difference to that.
\<close>

lemma saved_then_loaded:
  assumes "store_wf w" and "steady w" and "enumerates (iter_order w)" and "gap_ok gap"
    and "run_state (create_snapshot (\<lambda>i. gap (Copying i))) w = (snap, v)" and "savable snap"
  shows "\<exists>saved w1 w'. (\<forall>disk. run_state (save_to_file gap Written f disk) w = ((True, disk(f \<mapsto> saved)), w1))
    \<and> run_state (load_lines (getlines saved) []) (storage_init clk ord) = ((), w')
    \<and> (\<forall>k item. umap_find k (string_data w') = Some item \<longrightarrow>
         (\<exists>item0. umap_find k (string_data w) = Some item0 \<and> item = new_item (contents item0)
            \<and> (has_expiry item0 \<longrightarrow> clock w (reads w) < expiry item0)))
    \<and> (\<forall>k item0. umap_find k (string_data w) = Some item0
         \<and> (has_expiry item0 \<longrightarrow> clock w (reads w1) < expiry item0) \<longrightarrow>
         umap_find k (string_data w') = Some (new_item (contents item0)))
    \<and> hash_data w' = umap_empty \<and> list_data w' = umap_empty \<and> set_data w' = umap_empty"
proof -
  obtain hm lm mm where snap: "snap = (string_data w, hm, lm, mm)" and v: "later w v"
    using create_snapshot_run [of "\<lambda>i. gap (Copying i)" w] assms(4,5) by (auto simp: gap_ok_def)
  have same: "clock v = clock w" "iter_order v = iter_order w" using v by (simp_all add: later_def)
  have ok: "steady v" "enumerates (iter_order v)" using v assms(2,3) by (simp_all add: later_steady same(2))
  have wf: "umap_wf (string_data w)" using assms(1) by (simp add: store_wf_def all_items_def)
  note savable = assms(6) [unfolded snap]
  obtain kept h l m w1 w2 where run: "run_state (write_snapshot gap (string_data w, hm, lm, mm)) v =
      (put_line ''[STRINGS]'' @ concat (map put_line (map kv_line (map (\<lambda>(k, item). (k, contents item)) kept)))
         @ put_line ''[HASHES]'' @ h @ put_line ''[LISTS]'' @ l @ put_line ''[SETS]'' @ m, w2)"
    and eqs: "eq_lines h" "eq_lines l" "eq_lines m" and w1: "later v w1" "later w1 w2"
    and kept: "set kept \<subseteq> set (umap_entries (iter_order w) (string_data w))" "distinct (map fst kept)"
      "\<forall>(k, item) \<in> set kept. has_expiry item \<longrightarrow> clock w (reads v) < expiry item"
      "\<forall>(k, item) \<in> set (umap_entries (iter_order w) (string_data w)).
          (has_expiry item \<longrightarrow> clock w (reads w1) < expiry item) \<longrightarrow> (k, item) \<in> set kept"
    using write_snapshot_run [OF ok(1) assms(4) ok(2) savable wf, unfolded same] by blast
  let ?w' = "perform_all (set_calls (map (\<lambda>(k, item). (k, contents item)) kept)) (storage_init clk ord)"
  have "\<forall>(k, v) \<in> set (map (\<lambda>(k, item). (k, contents item)) kept).
      CHR ''='' \<notin> set k \<and> (k = [] \<or> hd k \<noteq> CHR ''['') \<and> newline \<notin> set k \<and> newline \<notin> set v"
    using kept(1) savable_entries(1) [OF savable assms(3)] by fastforce
  note load = load_text [OF this eqs refl]
  have times: "clock w (reads w) \<le> clock w (reads v)" "clock w (reads w1) \<le> clock w (reads w2)"
    using later_clock [OF assms(2) later_refl v] later_clock [OF assms(2) later_trans [OF v w1(1)] w1(2)] .
  note found = find_kept [OF assms(3) kept(1,3,4) find_loaded [OF kept(2), of _ clk ord] times]
  have "hash_data ?w' = umap_empty \<and> list_data ?w' = umap_empty \<and> set_data ?w' = umap_empty"
    by (rule set_calls_other_maps) simp
  moreover obtain saved where written: "run_state (write_snapshot gap snap) v = (saved, w2)"
    "run_state (load_lines (getlines saved) []) (storage_init clk ord) = ((), ?w')"
    using run load [of "storage_init clk ord"] unfolding snap by auto
  moreover have "\<forall>disk. run_state (save_to_file gap Written f disk) w = ((True, disk(f \<mapsto> saved)), w2)"
    by (simp add: save_to_file_def State_Monad.run_state_bind assms(5) written(1))
  ultimately show ?thesis using found by blast
qed

lemma savable_set:
  assumes "newline \<notin> set k" and "CHR ''='' \<notin> set k" and "k = [] \<or> hd k \<noteq> CHR ''[''" and "newline \<notin> set v"
  shows "savable (fst (run_state (create_snapshot (\<lambda>i. [])) (perform (Call_set k v) (storage_init clk ord))))"
  using assms by (simp add: savable_def create_snapshot_def exec_simps um.find_put um.find_empty)

text \<open>
  What calls during the saving do change: the four maps of a snapshot may belong to no common
  moment. If a string and then a hash are stored after the strings have been copied, the
  file gets the hash without the string, although no moment had the one without the other.
\<close>

lemma torn_snapshot:
  assumes "calls = [Call_set a v, Call_hset b f x]"
  shows "let w = storage_init clk ord;
      (string_map, hash_map, _) = fst (run_state (create_snapshot (\<lambda>i. if i = 1 then calls else [])) w)
    in umap_find b hash_map \<noteq> None \<and> umap_find a string_map = None
     \<and> (\<forall>n. let w' = perform_all (take n calls) w in
          umap_find b (hash_data w') \<noteq> None \<longrightarrow> umap_find a (string_data w') \<noteq> None)"
proof -
  let ?w = "storage_init clk ord"
  have "umap_find a (string_data (perform_all (take n calls) ?w)) \<noteq> None"
    if "umap_find b (hash_data (perform_all (take n calls) ?w)) \<noteq> None" for n
    using that unfolding assms
    by (cases n; cases "n - 1"; simp add: exec_simps um.find_put um.find_empty umap_find_purge new_item_def expired_at_def)
  then show ?thesis
    unfolding assms by (simp add: create_snapshot_def exec_simps um.find_put um.find_empty Let_def)
qed

text \<open>
  A saving whose writes fail is reported as a success, and the previous saving is lost: with
  no room at all the file is left empty, and loading it restores nothing.
\<close>

lemma failed_writes_lose_saving:
  "\<exists>w1. run_state (save_to_file gap (Cut_short 0) f disk) w = ((True, disk(f \<mapsto> [])), w1)
    \<and> run_state (load_from_file f (disk(f \<mapsto> []))) v = (True, v)"
  by (simp add: save_to_file_def State_Monad.run_state_bind case_prod_beta' load_from_file_def)

text \<open>
  A key with an equals sign does not survive: the file line is cut at the first equals sign,
  so after saving and loading the string is found under the part of the key before it, with
  the rest of the key in front of its value, and no longer under its own key.
\<close>

lemma equals_in_key_misread:
  assumes "CHR ''='' \<notin> set k1" and "newline \<notin> set (k1 @ k2 @ v)" and "k1 = [] \<or> hd k1 \<noteq> CHR ''[''"
    and "enumerates ord0"
  shows "let ((saved, disk'), w1) = run_state (save_to_file undisturbed Written f disk)
           (perform (Call_set (k1 @ CHR ''='' # k2) v) (storage_init clk0 ord0));
      (loaded, w') = run_state (load_from_file f disk') (storage_init clk ord)
    in umap_find k1 (string_data w') = Some (new_item (k2 @ CHR ''='' # v))
      \<and> umap_find (k1 @ CHR ''='' # k2) (string_data w') = None"
proof -
  let ?k = "k1 @ CHR ''='' # k2"
  let ?w = "perform (Call_set ?k v) (storage_init clk0 ord0)"
  let ?snap = "(string_data ?w, umap_empty, umap_empty, umap_empty) :: snapshot"
  let ?text = "fst (run_state (write_snapshot undisturbed ?snap) ?w)"
  have maps: "string_data ?w = [(?k, new_item v)]" "hash_data ?w = umap_empty"
      "list_data ?w = umap_empty" "set_data ?w = umap_empty" "iter_order ?w = ord0"
    by (simp_all add: exec_simps umap_put_def umap_empty_def purge_def umap_find_def storage_init_def)
  have "ord0 [?k] = [?k]" using assms(4) by (rule enumerates_single)
  then have "umap_entries ord0 [(?k, new_item v)] = [(?k, new_item v)]"
    by (simp add: umap_entries_def umap_keys_def umap_find_def List.map_filter_simps)
  moreover have "put_string_item ?k v = put_line (kv_line (k1, k2 @ CHR ''='' # v))"
    by (simp add: put_string_item_def kv_line_def)
  ultimately have run: "run_state (write_snapshot undisturbed ?snap) ?w =
      (put_line ''[STRINGS]'' @ concat (map put_line (map kv_line [(k1, k2 @ CHR ''='' # v)]))
         @ put_line ''[HASHES]'' @ [] @ put_line ''[LISTS]'' @ [] @ put_line ''[SETS]'' @ [], ?w)"
    by (simp add: write_snapshot_def maps run_unexpired new_item_def undisturbed_def
        umap_entries_empty [OF assms(4)])
  have "\<forall>(k, v) \<in> set [(k1, k2 @ CHR ''='' # v)]. CHR ''='' \<notin> set k \<and> (k = [] \<or> hd k \<noteq> CHR ''['')
      \<and> newline \<notin> set k \<and> newline \<notin> set v"
    using assms(1-3) by simp
  moreover have "eq_lines []" unfolding eq_lines_def by (intro exI [of _ "[]"]) simp
  ultimately have load: "run_state (load_lines (getlines ?text) []) (storage_init clk ord)
      = ((), perform_all (set_calls [(k1, k2 @ CHR ''='' # v)]) (storage_init clk ord))"
    unfolding run fst_conv by (intro load_text) (assumption | rule refl)+
  have "run_state (create_snapshot (\<lambda>i. undisturbed (Copying i))) ?w = (?snap, ?w)"
    by (simp add: create_snapshot_def undisturbed_def maps)
  then have "run_state (save_to_file undisturbed Written f disk) ?w = ((True, disk(f \<mapsto> ?text)), ?w)"
    by (simp only: save_to_file_def State_Monad.run_state_bind run prod.case
        State_Monad.run_state_return fst_conv output_file.distinct if_False output_file.case)
  moreover note disk_round_trip [OF refl load, of f disk]
  moreover have "k1 \<noteq> ?k" by simp
  ultimately show ?thesis
    by (simp only: Let_def prod.case find_set_calls) (simp add: um.find_empty)
qed

end
