(* ===== verification/Services.thy ===== *)
theory Services
  imports Prelude
begin

text \<open>
  What the background services of the server have in common: the replication master and slave,
  the cluster listener, the node discovery and the automatic saving. Each has a flag that
  says it runs, threads it must join before it may be destroyed, and a start and a stop
  operation. \<open>service\<close> is their contract; every manager interprets it on its own
  operations (theories \<open>Replication\<close>, \<open>Cluster\<close>, \<open>Persistence_Service\<close>).

  The accept loop of the replication master and of the cluster listener is the same code
  and is here as well.
\<close>

section \<open>Starting threads\<close>

text \<open>
  What the operating system does when a service is started: creating the acceptor throws, or
  \<open>n\<close> threads can be created before the creation of the next one throws.
\<close>

datatype launch = Bind_fails | Spawns nat

text \<open>\<open>hardware_concurrency()\<close>, with the default for 0.\<close>

definition thread_count :: "nat \<Rightarrow> nat \<Rightarrow> nat" where
  "thread_count fallback hw = (if hw = 0 then fallback else hw)"

text \<open>\<open>asio::ip::tcp::endpoint(v4, port)\<close> takes an \<open>unsigned short\<close>.\<close>

definition to_port :: "int \<Rightarrow> int" where
  "to_port p = p mod 2 ^ 16"

lemma to_port_range: "0 \<le> to_port p \<and> to_port p < 2 ^ 16"
  by (simp add: to_port_def)

lemma to_port_id: "0 \<le> p \<Longrightarrow> p < 2 ^ 16 \<Longrightarrow> to_port p = p"
  by (simp add: to_port_def)

section \<open>The contract\<close>

locale service =
  fixes running :: "'s \<Rightarrow> bool"
    and threads :: "'s \<Rightarrow> nat"
    and start :: "'p \<Rightarrow> 's \<Rightarrow> 's"
    and stop :: "'s \<Rightarrow> 's"
    and can_start :: "'p \<Rightarrow> 's \<Rightarrow> bool"
  assumes start_running: "running s \<Longrightarrow> start p s = s"
    and start_stopped: "\<not> running s \<Longrightarrow> can_start p s \<Longrightarrow>
      running (start p s) \<and> threads s < threads (start p s)"
    and stop_running: "running s \<Longrightarrow> \<not> running (stop s) \<and> threads (stop s) = 0"
    and stop_stopped: "\<not> running s \<Longrightarrow> stop s = s"
begin

text \<open>Destroying an object with a joinable thread terminates the process.\<close>

definition clean :: "'s \<Rightarrow> bool" where
  "clean s \<longleftrightarrow> (running s \<longleftrightarrow> 0 < threads s)"

definition idle :: "'s \<Rightarrow> bool" where
  "idle s \<longleftrightarrow> \<not> running s \<and> threads s = 0"

lemma stop_idle: "clean s \<Longrightarrow> idle (stop s)"
  by (cases "running s") (auto simp: clean_def idle_def stop_running stop_stopped)

lemma stop_twice: "stop (stop s) = stop s"
  by (cases "running s") (auto simp: stop_running stop_stopped)

lemma start_clean: "clean s \<Longrightarrow> can_start p s \<Longrightarrow> clean (start p s) \<and> running (start p s)"
  using start_stopped [of s p] by (cases "running s") (auto simp: clean_def start_running)

lemma stop_clean: "clean s \<Longrightarrow> clean (stop s)"
  by (cases "running s") (auto simp: clean_def stop_running stop_stopped)

lemma start_twice: "can_start p s \<Longrightarrow> start q (start p s) = start p s"
  using start_stopped [of s p] by (cases "running s") (auto simp: start_running)

lemma start_then_stop_idle: "clean s \<Longrightarrow> can_start p s \<Longrightarrow> idle (stop (start p s))"
  using start_clean [of s p] by (simp add: stop_idle)

end

section \<open>The accept loop\<close>

text \<open>
  One round of \<open>while (running) { accept; if (!ec && running) handle; }\<close>: the flag as the
  loop condition reads it, how \<open>accept\<close> ends, and the flag as it is read afterwards.
\<close>

datatype 'c accept_result = Accepted 'c | Accept_error | Accept_throws

primrec accept_loop :: "(bool \<times> 'c accept_result \<times> bool) list \<Rightarrow> 'c list" where
  "accept_loop [] = []"
| "accept_loop (r # rs) =
     (case r of (before, result, afterwards) \<Rightarrow>
        if \<not> before then []
        else (case result of
            Accepted c \<Rightarrow> if afterwards then [c] else []
          | Accept_error \<Rightarrow> []
          | Accept_throws \<Rightarrow> []) @ accept_loop rs)"

lemma accept_loop_stops: "accept_loop (xs @ (False, r, b) # ys) = accept_loop xs"
  by (induction xs) auto

end
