(* ===== verification/Persistence_Service.thy ===== *)
theory Persistence_Service
  imports Persistence Services
begin

text \<open>
  The threads of \<open>PersistenceManager\<close> (\<open>src/persistence.cpp\<close>): the worker pool its constructor
  creates, the automatic saving with its thread, the destructor, the schedule of
  \<open>autoPersistenceLoop\<close> as a function of what the loop reads from its flag, and what a
  process that loads the file recovers after any rounds of saving.
\<close>

section \<open>State and operations\<close>

record persistence =
  auto_running :: bool
  auto_threads :: nat
  auto_target :: "(string \<times> int) option"
  workers_running :: bool
  worker_threads :: nat

text \<open>\<open>initializeWorkers\<close>: \<open>hw\<close> is \<open>hardware_concurrency()\<close>.\<close>

definition initialize_workers :: "nat \<Rightarrow> persistence \<Rightarrow> persistence" where
  "initialize_workers hw s =
     s\<lparr>workers_running := True, worker_threads := worker_threads s + thread_count 2 hw\<rparr>"

definition shutdown_workers :: "persistence \<Rightarrow> persistence" where
  "shutdown_workers s = s\<lparr>workers_running := False, worker_threads := 0\<rparr>"

definition persistence_init :: "nat \<Rightarrow> persistence" where
  "persistence_init hw = initialize_workers hw
     \<lparr>auto_running = False, auto_threads = 0, auto_target = None, workers_running = False,
      worker_threads = 0\<rparr>"

definition start_auto_persistence :: "string \<Rightarrow> int \<Rightarrow> persistence \<Rightarrow> persistence" where
  "start_auto_persistence filename interval s =
     (if auto_running s then s
      else s\<lparr>auto_running := True, auto_threads := 1, auto_target := Some (filename, interval)\<rparr>)"

definition stop_auto_persistence :: "persistence \<Rightarrow> persistence" where
  "stop_auto_persistence s =
     (if auto_running s then s\<lparr>auto_running := False, auto_threads := 0\<rparr> else s)"

text \<open>\<open>~PersistenceManager\<close>.\<close>

definition persistence_destroy :: "persistence \<Rightarrow> persistence" where
  "persistence_destroy s = shutdown_workers (stop_auto_persistence s)"

interpretation auto_save: service auto_running auto_threads
  "\<lambda>(f, i). start_auto_persistence f i" stop_auto_persistence "\<lambda>_ s. auto_threads s = 0"
  by unfold_locales (auto simp: start_auto_persistence_def stop_auto_persistence_def)

inductive persistence_reachable :: "nat \<Rightarrow> persistence \<Rightarrow> bool" for hw where
  init: "persistence_reachable hw (persistence_init hw)"
| start: "persistence_reachable hw s \<Longrightarrow> persistence_reachable hw (start_auto_persistence f i s)"
| stop: "persistence_reachable hw s \<Longrightarrow> persistence_reachable hw (stop_auto_persistence s)"

lemma persistence_clean:
  "persistence_reachable hw s \<Longrightarrow> auto_save.clean s \<and> worker_threads s = thread_count 2 hw"
proof (induction rule: persistence_reachable.induct)
  case init
  show ?case by (simp add: auto_save.clean_def persistence_init_def initialize_workers_def)
next
  case (start s f i)
  show ?case
  proof (cases "auto_running s")
    case True
    with start show ?thesis using auto_save.start_running [of s "(f, i)"] by simp
  next
    case False
    with start have "auto_threads s = 0" by (simp add: auto_save.clean_def)
    with start show ?thesis
      using auto_save.start_clean [of s "(f, i)"] by (simp add: start_auto_persistence_def)
  qed
next
  case (stop s)
  then show ?case using auto_save.stop_clean by (simp add: stop_auto_persistence_def)
qed

text \<open>
  In every state a persistence manager can reach by starting and stopping automatic saving
  there is a saving thread exactly while it is running; a second start keeps the file and
  the interval of the first; and the destructor joins the saving thread and all workers.
\<close>

lemma persistence_life_cycle:
  assumes "persistence_reachable hw s"
  shows "(auto_running s \<longleftrightarrow> 0 < auto_threads s) \<and> worker_threads s = thread_count 2 hw
    \<and> start_auto_persistence f' i' (start_auto_persistence f i s) = start_auto_persistence f i s
    \<and> auto_threads (persistence_destroy s) = 0 \<and> worker_threads (persistence_destroy s) = 0
    \<and> \<not> auto_running (persistence_destroy s)"
proof -
  note clean = persistence_clean [OF assms]
  have "auto_running (start_auto_persistence f i s)" by (simp add: start_auto_persistence_def)
  from auto_save.start_running [OF this, of "(f', i')"]
  have "start_auto_persistence f' i' (start_auto_persistence f i s) = start_auto_persistence f i s"
    by simp
  moreover have "auto_save.idle (stop_auto_persistence s)"
    using clean by (intro auto_save.stop_idle) simp
  ultimately show ?thesis
    using clean by (simp add: auto_save.clean_def auto_save.idle_def persistence_destroy_def shutdown_workers_def)
qed

section \<open>The saving loop\<close>

text \<open>
  \<open>autoPersistenceLoop\<close> reads its flag before each round and before each second of sleep. The
  list gives what these readings return, the last one false; \<open>Save\<close> starts
  \<open>saveToFileAsync\<close> and waits for it at most 30 seconds. \<open>left\<close> counts the seconds still to
  sleep; at 0 the condition of the inner loop is false before the flag is read.
\<close>

datatype save_action = Save | Sleep_1s

fun saving_loop :: "nat \<Rightarrow> nat \<Rightarrow> bool list \<Rightarrow> save_action list" where
  "saving_loop interval left [] = []"
| "saving_loop interval 0 (b # bs) =
     (if b then Save # saving_loop interval interval bs else [])"
| "saving_loop interval (Suc left) (b # bs) =
     (if b then Sleep_1s # saving_loop interval left bs else saving_loop interval 0 bs)"

definition auto_persistence_loop :: "int \<Rightarrow> bool list \<Rightarrow> save_action list" where
  "auto_persistence_loop interval_seconds flags = saving_loop (nat interval_seconds) 0 flags"

lemma saving_loop_sleeps:
  "n \<le> left \<Longrightarrow> saving_loop i left (replicate n True @ bs) = replicate n Sleep_1s @ saving_loop i (left - n) bs"
proof (induction n arbitrary: left)
  case (Suc n)
  then obtain l where "left = Suc l" "n \<le> l" by (cases left) auto
  with Suc.IH show ?case by simp
qed simp

lemma saving_loop_rounds:
  "saving_loop i 0 (concat (replicate rounds (True # replicate i True)) @ bs)
     = concat (replicate rounds (Save # replicate i Sleep_1s)) @ saving_loop i 0 bs"
  by (induction rounds) (simp_all add: saving_loop_sleeps)

lemma saving_loop_stop: "saving_loop i left [False, False] = []"
  by (cases left) simp_all

text \<open>
  The schedule: while the flag stays true the loop saves at once and then every \<open>interval\<close>
  seconds (without a pause for an interval of zero or less); when the flag is cleared
  during a round, after \<open>k\<close> of its seconds, the loop ends with neither a sleep nor a save more.
\<close>

lemma saving_schedule:
  assumes "k \<le> nat interval"
  shows "auto_persistence_loop interval (concat (replicate rounds (True # replicate (nat interval) True))
        @ True # replicate k True @ [False, False])
     = concat (replicate rounds (Save # replicate (nat interval) Sleep_1s)) @ Save # replicate k Sleep_1s"
  using assms
  by (simp add: auto_persistence_loop_def saving_loop_rounds saving_loop_sleeps saving_loop_stop)

section \<open>What automatic saving protects\<close>

text \<open>
  \<open>saveToFileAsync\<close>: a detached thread runs \<open>saveToFile\<close> and fulfils a promise with its result
  or with the exception it threw (\<open>None\<close>, before the file is written: copying the maps is
  what can throw).
\<close>

datatype 'a outcome = Value 'a | Thrown

definition save_to_file_async ::
  "(point \<Rightarrow> call list) \<Rightarrow> output_file option \<Rightarrow> string \<Rightarrow> disk \<Rightarrow> (bool outcome \<times> disk) act" where
  "save_to_file_async gap run filename disk = (case run of
     None \<Rightarrow> State_Monad.return (Thrown, disk)
   | Some out \<Rightarrow> do {
       r \<leftarrow> save_to_file gap out filename disk;
       State_Monad.return (Value (fst r), snd r)
     })"

text \<open>
  The store and the disk over the rounds of \<open>autoPersistenceLoop\<close>: a round is the calls the
  clients have made since the last saving, those they make while it runs, and how it goes.
  The loop waits at most 30 seconds for a saving; here each ends before the next begins.
\<close>

type_synonym round = "call list \<times> (point \<Rightarrow> call list) \<times> output_file option"

primrec auto_rounds :: "string \<Rightarrow> round list \<Rightarrow> disk \<Rightarrow> disk act" where
  "auto_rounds filename [] disk = State_Monad.return disk"
| "auto_rounds filename (x # xs) disk = do {
     meanwhile (fst x);
     r \<leftarrow> save_to_file_async (fst (snd x)) (snd (snd x)) filename disk;
     auto_rounds filename xs (snd r)
   }"

definition round_ok :: "round \<Rightarrow> bool" where
  "round_ok x \<longleftrightarrow> (\<forall>c \<in> set (fst x). call_ok c) \<and> gap_ok (fst (snd x))"

text \<open>A saving leaves the disk alone unless it succeeds, and the store to the clients' calls.\<close>

lemma save_section_later:
  assumes "steady w" and "gap_ok gap"
  shows "later w (snd (run_state (save_section gap put es) w))"
  using save_section_run [OF assms, of put es] by auto

lemma save_section_after:
  assumes "steady w" and "gap_ok gap" and "later w v"
  shows "later w (snd (run_state (save_section (\<lambda>j. gap (Writing i j)) put es) v))"
  using assms save_section_later [OF later_steady [OF assms(3,1)], of "\<lambda>j. gap (Writing i j)" put es]
  by (auto simp: gap_ok_def intro: later_trans)

lemma write_snapshot_later:
  assumes "steady w" and "gap_ok gap"
  shows "later w (snd (run_state (write_snapshot gap snap) w))"
  unfolding write_snapshot_def using assms
  by (cases snap) (simp add: State_Monad.run_state_bind case_prod_beta' save_section_after)

lemma save_async_run:
  assumes "steady w" and "gap_ok gap"
  shows "later w (snd (run_state (save_to_file_async gap run f disk) w))"
    and "run = None \<or> run = Some Cannot_open \<Longrightarrow> snd (fst (run_state (save_to_file_async gap run f disk) w)) = disk"
proof -
  have "gap_ok (\<lambda>i. gap (Copying i))" using assms(2) by (simp add: gap_ok_def)
  from create_snapshot_run [OF this, of w] obtain snap v
    where snap: "run_state (create_snapshot (\<lambda>i. gap (Copying i))) w = (snap, v)" "later w v" by blast
  have "later w (snd (run_state (write_snapshot gap snap) v))"
    using snap(2) write_snapshot_later [OF later_steady [OF snap(2) assms(1)] assms(2)] by (rule later_trans)
  then show "later w (snd (run_state (save_to_file_async gap run f disk) w))"
    using snap by (auto simp: save_to_file_async_def save_to_file_def State_Monad.run_state_bind
        case_prod_beta' split: option.splits)
  show "run = None \<or> run = Some Cannot_open \<Longrightarrow> snd (fst (run_state (save_to_file_async gap run f disk) w)) = disk"
    by (auto simp: save_to_file_async_def save_to_file_def State_Monad.run_state_bind snap(1)
        split: option.splits)
qed

lemma auto_rounds_append:
  "run_state (auto_rounds f (xs @ ys) disk) w =
     (let (disk', w') = run_state (auto_rounds f xs disk) w in run_state (auto_rounds f ys disk') w')"
  by (induction xs arbitrary: disk w) (simp_all add: State_Monad.run_state_bind case_prod_beta' Let_def)

lemma later_round:
  assumes "steady w" and "round_ok x"
  shows "later w (snd (run_state (save_to_file_async (fst (snd x)) run f disk) (perform_all (fst x) w)))"
proof -
  have calls: "later w (perform_all (fst x) w)" using assms(2) by (simp add: round_ok_def later_perform_all)
  show ?thesis
    using calls save_async_run(1) [OF later_steady [OF calls assms(1)]] assms(2)
    by (auto simp: round_ok_def intro: later_trans)
qed

lemma later_rounds:
  assumes "steady w" and "\<forall>x \<in> set xs. round_ok x"
  shows "later w (snd (run_state (auto_rounds f xs disk) w))"
  using assms
proof (induction xs arbitrary: disk w)
  case (Cons x xs)
  let ?r = "run_state (save_to_file_async (fst (snd x)) (snd (snd x)) f disk) (perform_all (fst x) w)"
  have x: "later w (snd ?r)" using Cons.prems by (simp add: later_round)
  then have "later (snd ?r) (snd (run_state (auto_rounds f xs (snd (fst ?r))) (snd ?r)))"
    using Cons.prems by (intro Cons.IH) (simp_all add: later_steady)
  with x show ?case by (auto simp: State_Monad.run_state_bind case_prod_beta' intro: later_trans)
qed simp

lemma auto_rounds_no_save:
  assumes "steady w" and "\<forall>x \<in> set xs. round_ok x" and "\<forall>x \<in> set xs. snd (snd x) = None \<or> snd (snd x) = Some Cannot_open"
  shows "fst (run_state (auto_rounds f xs disk) w) = disk"
  using assms
proof (induction xs arbitrary: w)
  case (Cons x xs)
  let ?r = "run_state (save_to_file_async (fst (snd x)) (snd (snd x)) f disk) (perform_all (fst x) w)"
  have x: "later w (snd ?r)" using Cons.prems by (simp add: later_round)
  have calls: "later w (perform_all (fst x) w)" using Cons.prems by (simp add: round_ok_def later_perform_all)
  have "snd (fst ?r) = disk"
    using Cons.prems by (intro save_async_run(2) later_steady [OF calls]) (simp_all add: round_ok_def)
  moreover have "fst (run_state (auto_rounds f xs disk) (snd ?r)) = disk"
    using Cons.prems by (intro Cons.IH later_steady [OF x]) simp_all
  ultimately show ?case by (simp add: State_Monad.run_state_bind case_prod_beta')
qed simp

text \<open>
  C33. Recovery: from a well-formed store on a steady clock, and after any rounds of automatic
  saving, each of which ends before the next begins, a
  new process that loads the file gets the strings of the moment at which the last complete
  saving began, whatever the clients call while it runs, provided that the savings after it
  failed before they opened the file and that the format can hold the texts saved
  (\<open>savable\<close>: no line break, and no key with an equals sign or a leading bracket). It gets
  every string that was stored then and expires only after that saving, or never, with its
  value and without an expiry; it gets no string that was not stored then or had expired;
  and it gets no hash, list or set.
\<close>

theorem auto_save_recovery:
  assumes "\<forall>x \<in> set (before @ (calls, gap, Some Written) # failed). round_ok x"
    and "\<forall>x \<in> set failed. snd (snd x) = None \<or> snd (snd x) = Some Cannot_open"
    and "store_wf w0" and "steady w0" and "enumerates (iter_order w0)"
    and "w = perform_all calls (snd (run_state (auto_rounds f before disk) w0))"
    and "savable (fst (run_state (create_snapshot (\<lambda>i. gap (Copying i))) w))"
  shows "let disk' = fst (run_state (auto_rounds f (before @ (calls, gap, Some Written) # failed) disk) w0);
      (loaded, w') = run_state (load_from_file f disk') (storage_init clk ord);
      w1 = snd (run_state (save_to_file gap Written f disk) w)
    in loaded
     \<and> (\<forall>k item. umap_find k (string_data w') = Some item \<longrightarrow>
          (\<exists>item0. umap_find k (string_data w) = Some item0 \<and> item = new_item (contents item0)
             \<and> (has_expiry item0 \<longrightarrow> clock w (reads w) < expiry item0)))
     \<and> (\<forall>k item0. umap_find k (string_data w) = Some item0
          \<and> (has_expiry item0 \<longrightarrow> clock w (reads w1) < expiry item0) \<longrightarrow>
          umap_find k (string_data w') = Some (new_item (contents item0)))
     \<and> hash_data w' = umap_empty \<and> list_data w' = umap_empty \<and> set_data w' = umap_empty"
proof -
  obtain disk0 wb where before: "run_state (auto_rounds f before disk) w0 = (disk0, wb)" by fastforce
  have ok: "\<forall>x \<in> set before. round_ok x" "\<forall>x \<in> set failed. round_ok x" "\<forall>c \<in> set calls. call_ok c" "gap_ok gap"
    using assms(1) by (simp_all add: round_ok_def ball_Un)
  have "later w0 wb" using later_rounds [OF assms(4) ok(1), of f disk] before by simp
  moreover have "later wb w" using ok(3) assms(6) before by (simp add: later_perform_all)
  ultimately have w: "later w0 w" by (rule later_trans)
  then have wf: "store_wf w" "steady w" "enumerates (iter_order w)"
    using assms(3-5) by (simp_all add: later_def steady_def)
  obtain snap v where snap: "run_state (create_snapshot (\<lambda>i. gap (Copying i))) w = (snap, v)" by fastforce
  with assms(7) have "savable snap" by simp
  from saved_then_loaded [OF wf ok(4) snap this, of f clk ord] obtain saved w1 w' where
    saved: "\<forall>disk. run_state (save_to_file gap Written f disk) w = ((True, disk(f \<mapsto> saved)), w1)"
    "run_state (load_lines (getlines saved) []) (storage_init clk ord) = ((), w')"
    and result: "\<forall>k item. umap_find k (string_data w') = Some item \<longrightarrow>
         (\<exists>item0. umap_find k (string_data w) = Some item0 \<and> item = new_item (contents item0)
            \<and> (has_expiry item0 \<longrightarrow> clock w (reads w) < expiry item0))"
      "\<forall>k item0. umap_find k (string_data w) = Some item0
         \<and> (has_expiry item0 \<longrightarrow> clock w (reads w1) < expiry item0) \<longrightarrow>
         umap_find k (string_data w') = Some (new_item (contents item0))"
      "hash_data w' = umap_empty \<and> list_data w' = umap_empty \<and> set_data w' = umap_empty"
    by blast
  have async: "run_state (save_to_file_async gap (Some Written) f disk0) w = ((Value True, disk0(f \<mapsto> saved)), w1)"
    using saved(1) by (simp add: save_to_file_async_def State_Monad.run_state_bind)
  then have "later w w1" using save_async_run(1) [OF wf(2) ok(4), of "Some Written" f disk0] by simp
  then have "fst (run_state (auto_rounds f failed (disk0(f \<mapsto> saved))) w1) = disk0(f \<mapsto> saved)"
    using ok(2) assms(2) wf(2) by (intro auto_rounds_no_save later_steady [of w w1]) simp_all
  then have "fst (run_state (auto_rounds f (before @ (calls, gap, Some Written) # failed) disk) w0) = disk0(f \<mapsto> saved)"
    using before assms(6) async by (simp add: auto_rounds_append State_Monad.run_state_bind)
  with disk_round_trip [OF refl saved(2), of f disk0] saved(1) result show ?thesis
    by (simp only: Let_def prod.case snd_conv)
qed

theorem auto_save_recovery_witness:
  "let saving = (\<lambda>p. if p = Copying 1 then [Call_set ''name'' ''herobrine''] else []);
       disk = fst (run_state (auto_rounds ''dump'' [([Call_set ''name'' ''steve''], saving, Some Written),
         ([Call_set ''name'' ''alex''], undisturbed, Some Cannot_open)] Map.empty) (storage_init (\<lambda>n. 7) rev));
       (loaded, w') = run_state (load_from_file ''dump'' disk) (storage_init (\<lambda>n. 7) rev)
   in umap_find ''name'' (string_data w') = Some (new_item ''steve'')"
proof -
  let ?i = "storage_init (\<lambda>n. 7) rev" and ?gap = "\<lambda>p. if p = Copying 1 then [Call_set ''name'' ''herobrine''] else []"
  let ?w = "perform_all [Call_set ''name'' ''steve''] (snd (run_state (auto_rounds ''dump'' [] Map.empty) ?i))"
  have "enumerates (iter_order ?i)" by simp
  have steady: "steady ?i" by (simp add: steady_def storage_init_def mono_def)
  have savable: "savable (fst (run_state (create_snapshot (\<lambda>i. ?gap (Copying i))) ?w))"
    by (simp add: savable_def create_snapshot_def exec_simps um.find_put um.find_empty)
  have "\<forall>x \<in> set ([] @ ([Call_set ''name'' ''steve''], ?gap, Some Written) # [([Call_set ''name'' ''alex''], undisturbed, Some Cannot_open)]).
      round_ok x" by (simp add: round_ok_def gap_ok_def undisturbed_def)
  moreover have "\<forall>x \<in> set [([Call_set ''name'' ''alex''], undisturbed, Some Cannot_open)]. snd (snd x) = None \<or> snd (snd x) = Some Cannot_open" by simp
  moreover have "umap_find ''name'' (string_data ?w) = Some (new_item ''steve'')" by (simp add: exec_simps)
  moreover have "\<not> has_expiry (new_item ''steve'')" by (simp add: new_item_def)
  ultimately show ?thesis
    using auto_save_recovery [of "[]" "[Call_set ''name'' ''steve'']" ?gap "[([Call_set ''name'' ''alex''], undisturbed, Some Cannot_open)]"
        ?i ?w "''dump''" Map.empty "\<lambda>n. 7" rev, OF _ _ _ steady _ refl savable]
      \<open>enumerates (iter_order ?i)\<close>
    unfolding Let_def split_beta by (metis store_wf_init append_Nil contents_new_item)
qed

end
