(* ===== verification/Replication.thy ===== *)
theory Replication
  imports Session_Protocol Services
begin

text \<open>
  \<open>ReplicationManager\<close> (\<open>include/replication.h\<close>, \<open>src/replication.cpp\<close>): the role, the master
  and slave services with their threads, and what travels between them. The network is a
  parameter: how a connection attempt or a read ends is given as data. The lemmas: the
  life cycle of both services (contract \<open>service\<close>), the leak after a start that fails
  half way, and what a slave does with what a master sends.
\<close>

section \<open>State\<close>

datatype replication_role = MASTER | SLAVE

record replication =
  role :: replication_role
  master_running :: bool
  master_listening :: "int option"
  master_threads :: nat
  slave_connected :: bool
  slave_threads :: nat
  repl_master_host :: string
  repl_master_port :: int

definition replication_init :: "replication_role \<Rightarrow> replication" where
  "replication_init r =
     \<lparr>role = r, master_running = False, master_listening = None, master_threads = 0,
      slave_connected = False, slave_threads = 0, repl_master_host = [], repl_master_port = 0\<rparr>"

definition get_manager_role :: "replication \<Rightarrow> replication_role" where
  "get_manager_role s = role s"

definition set_role :: "replication_role \<Rightarrow> replication \<Rightarrow> replication" where
  "set_role r s = s\<lparr>role := r\<rparr>"

section \<open>Starting and stopping\<close>

text \<open>
  \<open>hw\<close> is \<open>hardware_concurrency()\<close>. The acceptor thread and \<open>hw\<close> threads for the
  \<open>io_context\<close> are created; when a creation throws, those already in \<open>master_threads_\<close> stay.
\<close>

definition start_master :: "nat \<Rightarrow> launch \<Rightarrow> int \<Rightarrow> replication \<Rightarrow> replication" where
  "start_master hw l p s =
     (if role s \<noteq> MASTER then s
      else if master_running s then s
      else case l of
          Bind_fails \<Rightarrow> s\<lparr>master_running := False\<rparr>
        | Spawns n \<Rightarrow>
            let wanted = 1 + thread_count 4 hw in
            if wanted \<le> n then s\<lparr>master_running := True, master_listening := Some (to_port p),
              master_threads := master_threads s + wanted\<rparr>
            else s\<lparr>master_running := False, master_listening := Some (to_port p),
              master_threads := master_threads s + n\<rparr>)"

definition stop_master :: "replication \<Rightarrow> replication" where
  "stop_master s =
     (if master_running s then
        s\<lparr>master_running := False, master_listening := None, master_threads := 0\<rparr>
      else s)"

text \<open>Only one thread is created; the assignment happens only when its creation succeeds.\<close>

definition start_slave :: "launch \<Rightarrow> string \<Rightarrow> int \<Rightarrow> replication \<Rightarrow> replication" where
  "start_slave l h p s =
     (if role s \<noteq> SLAVE then s
      else if slave_connected s then s
      else
        let s = s\<lparr>repl_master_host := h, repl_master_port := p\<rparr> in
        case l of
          Bind_fails \<Rightarrow> s\<lparr>slave_connected := False\<rparr>
        | Spawns n \<Rightarrow>
            if 1 \<le> n then s\<lparr>slave_connected := True, slave_threads := 1\<rparr>
            else s\<lparr>slave_connected := False\<rparr>)"

definition stop_slave :: "replication \<Rightarrow> replication" where
  "stop_slave s =
     (if slave_connected s then s\<lparr>slave_connected := False, slave_threads := 0\<rparr> else s)"

text \<open>\<open>~ReplicationManager\<close>.\<close>

definition replication_destroy :: "replication \<Rightarrow> replication" where
  "replication_destroy s = stop_slave (stop_master s)"

section \<open>The life cycle of the services\<close>

definition can_start_master :: "nat \<times> launch \<times> int \<Rightarrow> replication \<Rightarrow> bool" where
  "can_start_master p s \<longleftrightarrow> role s = MASTER
     \<and> (case p of (hw, Spawns n, _) \<Rightarrow> 1 + thread_count 4 hw \<le> n | _ \<Rightarrow> False)"

definition can_start_slave :: "launch \<times> string \<times> int \<Rightarrow> replication \<Rightarrow> bool" where
  "can_start_slave p s \<longleftrightarrow> role s = SLAVE \<and> slave_threads s = 0
     \<and> (case p of (Spawns n, _) \<Rightarrow> 1 \<le> n | _ \<Rightarrow> False)"

interpretation master: service master_running master_threads
  "\<lambda>(hw, l, p). start_master hw l p" stop_master can_start_master
  by unfold_locales
    (auto simp: start_master_def stop_master_def can_start_master_def Let_def split: launch.splits)

interpretation slave: service slave_connected slave_threads
  "\<lambda>(l, h, p). start_slave l h p" stop_slave can_start_slave
  by unfold_locales
    (auto simp: start_slave_def stop_slave_def can_start_slave_def Let_def split: launch.splits)

text \<open>
  A replication manager can be destroyed safely: whatever role it has, starting its service
  and stopping it again, or destroying the manager while it runs, joins every thread and
  closes the port; starting twice is starting once and stopping twice is stopping once.
\<close>

lemma replication_life_cycle:
  assumes "1 + thread_count 4 hw \<le> n"
  shows "master_running (start_master hw (Spawns n) p (replication_init MASTER))
    \<and> master_listening (start_master hw (Spawns n) p (replication_init MASTER)) = Some (to_port p)
    \<and> start_master hw' l' p' (start_master hw (Spawns n) p (replication_init MASTER))
        = start_master hw (Spawns n) p (replication_init MASTER)
    \<and> replication_destroy (start_master hw (Spawns n) p (replication_init MASTER)) = replication_init MASTER
    \<and> stop_master (stop_master s) = stop_master s
    \<and> slave_threads (replication_destroy (start_slave (Spawns n) h p (replication_init SLAVE))) = 0
    \<and> stop_slave (stop_slave s) = stop_slave s"
proof -
  let ?m = "replication_init MASTER" and ?s = "replication_init SLAVE"
  have m: "can_start_master (hw, Spawns n, p) ?m"
    using assms by (simp add: can_start_master_def replication_init_def)
  have s: "can_start_slave (Spawns n, h, p) ?s"
    using assms by (simp add: can_start_slave_def replication_init_def)
  have "start_master hw' l' p' (start_master hw (Spawns n) p ?m) = start_master hw (Spawns n) p ?m"
    using master.start_twice [OF m, of "(hw', l', p')"] by simp
  moreover have "slave.clean ?s" by (simp add: slave.clean_def replication_init_def)
  then have "slave_threads (stop_slave (start_slave (Spawns n) h p ?s)) = 0"
    using slave.start_then_stop_idle [OF _ s] by (simp add: slave.idle_def)
  moreover have "stop_master (start_slave (Spawns n) h p ?s) = start_slave (Spawns n) h p ?s"
    by (rule master.stop_stopped) (simp add: start_slave_def replication_init_def Let_def)
  ultimately show ?thesis
    using assms master.stop_twice slave.stop_twice
    by (simp add: replication_destroy_def start_master_def stop_master_def stop_slave_def
        replication_init_def Let_def)
qed

text \<open>
  A failed start leaks: when the creation of a later thread throws, \<open>startMaster\<close> clears the
  running flag but keeps the threads it has created and the open port, and neither
  \<open>stopMaster\<close> nor the destructor does anything about them.
\<close>

lemma failed_start_leaks:
  assumes "0 < n" and "n < 1 + thread_count 4 hw"
  shows "let s = start_master hw (Spawns n) p (replication_init MASTER) in
      \<not> master_running s \<and> master_threads s = n \<and> master_listening s = Some (to_port p)
    \<and> stop_master s = s
    \<and> master_threads (replication_destroy s) = n"
  using assms
  by (simp add: start_master_def stop_master_def stop_slave_def replication_destroy_def
      replication_init_def Let_def)

section \<open>What a slave does\<close>

text \<open>
  How one iteration of \<open>slaveConnectLoop\<close> goes, and how a read from the master ends. A chunk
  is what one \<open>read_some\<close> returns, at most 1024 bytes.
\<close>

datatype read_result = Chunk string | End_of_file | Read_error

datatype attempt = Resolve_fails | Connect_fails | Connected "read_result list" | Attempt_throws

datatype slave_action = Wait_5s | Log string

definition process_replication_command :: "string \<Rightarrow> string act" where
  "process_replication_command cmd = State_Monad.return
     (if substr cmd 0 3 = ''SET'' then ''Applying SET command to local storage''
      else if substr cmd 0 3 = ''DEL'' then ''Applying DEL command to local storage''
      else if substr cmd 0 4 = ''HSET'' then ''Applying HSET command to local storage''
      else if substr cmd 0 5 = ''LPUSH'' then ''Applying LPUSH command to local storage''
      else ''Unknown replication command: '' @ cmd)"

primrec handle_master_commands :: "read_result list \<Rightarrow> slave_action list act" where
  "handle_master_commands [] = State_Monad.return []"
| "handle_master_commands (r # rs) =
     (case r of
        End_of_file \<Rightarrow> State_Monad.return []
      | Read_error \<Rightarrow> State_Monad.return [Log ''Error reading from master'']
      | Chunk c \<Rightarrow> do {
          l \<leftarrow> process_replication_command c;
          rest \<leftarrow> handle_master_commands rs;
          State_Monad.return (Log l # rest)
        })"

primrec slave_connect_loop :: "attempt list \<Rightarrow> slave_action list act" where
  "slave_connect_loop [] = State_Monad.return []"
| "slave_connect_loop (a # as) = do {
     now_done \<leftarrow> (case a of
         Resolve_fails \<Rightarrow> State_Monad.return [Wait_5s]
       | Connect_fails \<Rightarrow> State_Monad.return [Wait_5s]
       | Connected rs \<Rightarrow> handle_master_commands rs
       | Attempt_throws \<Rightarrow> State_Monad.return [Wait_5s]);
     rest \<leftarrow> slave_connect_loop as;
     State_Monad.return (now_done @ rest)
   }"

section \<open>What a master sends\<close>

definition generate_storage_snapshot :: "string act" where
  "generate_storage_snapshot = State_Monad.return
     (''SNAPSHOT_START'' @ crlf @ ''SNAPSHOT_DATA:placeholder'' @ crlf @ ''SNAPSHOT_END'' @ crlf)"

text \<open>
  \<open>handleSlaveConnection\<close>: the snapshot is written, and when that succeeds the connection is kept
  open: \<open>flags\<close> is what \<open>master_running_ && socket.is_open()\<close> gives each second.
\<close>

datatype master_action = Send string | Wait_1s

primrec keep_alive :: "bool list \<Rightarrow> master_action list" where
  "keep_alive [] = []"
| "keep_alive (b # bs) = (if b then Wait_1s # keep_alive bs else [])"

definition handle_slave_connection :: "bool \<Rightarrow> bool list \<Rightarrow> master_action list act" where
  "handle_slave_connection write_ok flags = do {
     snapshot_data \<leftarrow> generate_storage_snapshot;
     State_Monad.return (if write_ok then Send snapshot_data # keep_alive flags else [])
   }"

definition generate_replication_log :: "string \<Rightarrow> string act" where
  "generate_replication_log cmd = do {
     t \<leftarrow> now;
     State_Monad.return (''REPL:'' @ to_string (whole_units t 1000000) @ '':'' @ cmd)
   }"

definition sync_to_slaves :: "bool" where "sync_to_slaves = True"
definition sync_from_master :: "bool" where "sync_from_master = True"

lemma run_process [simp]: "snd (run_state (process_replication_command c) w) = w"
  by (simp add: process_replication_command_def)

lemma run_handle_master_commands: "snd (run_state (handle_master_commands rs) w) = w"
proof (induction rs arbitrary: w)
  case (Cons r rs)
  then show ?case
    by (cases r) (simp_all add: State_Monad.run_state_bind case_prod_beta')
qed simp

lemma run_slave_connect_loop: "snd (run_state (slave_connect_loop as) w) = w"
proof (induction as arbitrary: w)
  case (Cons a as)
  then show ?case
    by (cases a) (simp_all add: State_Monad.run_state_bind case_prod_beta' run_handle_master_commands)
qed simp

lemma slave_connect_loop_append:
  "run_state (slave_connect_loop (as @ bs)) w =
     (fst (run_state (slave_connect_loop as) w) @ fst (run_state (slave_connect_loop bs) w), w)"
proof (induction as arbitrary: w)
  case Nil
  show ?case by (simp add: prod_eq_iff run_slave_connect_loop)
next
  case (Cons a as)
  then show ?case
    by (cases a) (simp_all add: State_Monad.run_state_bind case_prod_beta' run_handle_master_commands
        run_slave_connect_loop)
qed

text \<open>A chunk that starts with none of the four words is reported as unknown.\<close>

lemma process_unknown:
  assumes "\<not> contains ''SET'' c" and "\<not> contains ''DEL'' c" and "\<not> contains ''HSET'' c"
    and "\<not> contains ''LPUSH'' c"
  shows "run_state (process_replication_command c) w = (''Unknown replication command: '' @ c, w)"
proof -
  have "substr c 0 3 \<noteq> ''SET''" "substr c 0 3 \<noteq> ''DEL''" "substr c 0 4 \<noteq> ''HSET''" "substr c 0 5 \<noteq> ''LPUSH''"
    using assms substr_contains by metis+
  then show ?thesis unfolding process_replication_command_def by simp
qed

lemma handle_unknown_chunks:
  assumes "\<forall>p \<in> {''SET'', ''DEL'', ''HSET'', ''LPUSH''}. \<forall>c \<in> set cs. \<not> contains p c"
  shows "run_state (handle_master_commands (map Chunk cs)) w =
    (map (\<lambda>c. Log (''Unknown replication command: '' @ c)) cs, w)"
  using assms by (induction cs) (simp_all add: State_Monad.run_state_bind process_unknown)

definition snapshot_bytes :: string where
  "snapshot_bytes =
     ''SNAPSHOT_START'' @ crlf @ ''SNAPSHOT_DATA:placeholder'' @ crlf @ ''SNAPSHOT_END'' @ crlf"

lemma keep_alive_waits: "set (keep_alive flags) \<subseteq> {Wait_1s}"
  by (induction flags) auto

lemma run_handle_slave_connection:
  "run_state (handle_slave_connection True flags) w = (Send snapshot_bytes # keep_alive flags, w)"
  by (simp add: handle_slave_connection_def generate_storage_snapshot_def snapshot_bytes_def)

lemma snapshot_unknown:
  "\<forall>p \<in> {''SET'', ''DEL'', ''HSET'', ''LPUSH''}. \<not> contains p snapshot_bytes"
  by (simp add: snapshot_bytes_def crlf_def)

text \<open>
  C35. Replication transfers nothing: whatever a master stores, what it sends to a new slave is
  the same text and nothing after it, and a slave that receives it, cut into chunks in any way and after any
  failed or successful connections before, reports each chunk as an unknown command and
  keeps its store as it was.
\<close>

theorem replication_transfers_nothing:
  assumes "run_state (handle_slave_connection True flags) master_store = (Send bytes # waits, master_store')"
    and "concat cs = bytes"
  shows "master_store' = master_store
    \<and> run_state (slave_connect_loop (attempts @ [Connected (map Chunk cs)])) slave_store =
        (fst (run_state (slave_connect_loop attempts) slave_store)
           @ map (\<lambda>c. Log (''Unknown replication command: '' @ c)) cs, slave_store)
    \<and> fst (run_state (handle_slave_connection True flags) other_store) = Send bytes # waits
    \<and> set waits \<subseteq> {Wait_1s}"
proof -
  have bytes: "bytes = snapshot_bytes" and store: "master_store' = master_store"
    and waits: "waits = keep_alive flags"
    using assms(1) by (simp_all add: run_handle_slave_connection)
  have "\<forall>p \<in> {''SET'', ''DEL'', ''HSET'', ''LPUSH''}. \<forall>c \<in> set cs. \<not> contains p c"
  proof (intro ballI)
    fix p c
    assume p: "p \<in> {''SET'', ''DEL'', ''HSET'', ''LPUSH''}" and c: "c \<in> set cs"
    have "\<not> contains p (concat cs)"
      unfolding assms(2) bytes by (rule bspec [OF snapshot_unknown p])
    then show "\<not> contains p c" by (rule contrapos_nn) (rule contains_concat [OF _ c])
  qed
  from handle_unknown_chunks [OF this, of slave_store]
  have "run_state (slave_connect_loop [Connected (map Chunk cs)]) slave_store =
      (map (\<lambda>c. Log (''Unknown replication command: '' @ c)) cs, slave_store)"
    by (simp add: State_Monad.run_state_bind)
  then show ?thesis
    using bytes store waits keep_alive_waits [of flags]
    by (simp only: slave_connect_loop_append run_handle_slave_connection fst_conv simp_thms)
qed

theorem replication_transfers_nothing_witness:
  "run_state (slave_connect_loop [Resolve_fails, Connected [Chunk snapshot_bytes]]) (storage_init (\<lambda>n. 7) rev)
     = ([Wait_5s, Log (''Unknown replication command: '' @ snapshot_bytes)], (storage_init (\<lambda>n. 7) rev))"
  using replication_transfers_nothing [OF run_handle_slave_connection, of "[snapshot_bytes]" "storage_init (\<lambda>n. 7) rev" "[Resolve_fails]" "storage_init (\<lambda>n. 7) rev"]
  by simp

text \<open>The fields of a log entry: what follows the first and the second colon.\<close>

definition log_fields :: "string \<Rightarrow> (string \<times> string \<times> string) option" where
  "log_fields e = (case find_char (CHR '':'') e of
     None \<Rightarrow> None
   | Some i \<Rightarrow> (let r = substr_from e (i + 1) in case find_char (CHR '':'') r of
       None \<Rightarrow> None
     | Some j \<Rightarrow> Some (substr e 0 i, substr r 0 j, substr_from r (j + 1))))"

lemma colon_not_digit: "CHR '':'' \<notin> set (to_string n)"
proof -
  have "\<not> isdigit (CHR '':'')" by (simp add: isdigit_def)
  then show ?thesis using nat_digits_isdigit by (auto simp: to_string_def)
qed

text \<open>
  A replication log entry can be taken apart again: cut at its first two colons it gives the
  tag \<open>REPL\<close>, the decimal milliseconds of the clock, and the command, colons included.
\<close>

lemma log_entry_decodes:
  "log_fields (fst (run_state (generate_replication_log cmd) w))
     = Some (''REPL'', to_string (whole_units (clock w (reads w)) 1000000), cmd)"
proof -
  let ?t = "to_string (whole_units (clock w (reads w)) 1000000)"
  have "find_char (CHR '':'') (?t @ CHR '':'' # cmd) = Some (length ?t)"
    by (rule find_char_append [OF colon_not_digit])
  then show ?thesis
    by (simp add: generate_replication_log_def log_fields_def substr_def substr_from_def Let_def)
qed

end
