(* ===== verification/Cluster.thy ===== *)
theory Cluster
  imports Session_Loop Services "HOL-Library.Word"
begin

text \<open>
  \<open>ClusterManager\<close> (\<open>include/cluster.h\<close>, \<open>src/cluster.cpp\<close>): the list of nodes, the listener
  that answers other nodes, the discovery that pings them, and the hash slots. The network
  is a parameter (\<open>network\<close>): what resolving, connecting, writing and reading give, reading
  without an end included. The lemmas: the life cycle of the two services (contract
  \<open>service\<close>), the node list, which nodes are alive after ping rounds, and the arithmetic and
  the balance of the hash slots.
\<close>

section \<open>State\<close>

record cluster_node =
  cn_host :: string
  cn_port :: int
  cn_is_master :: bool
  cn_is_alive :: bool

record cluster =
  nodes :: "cluster_node list"
  cluster_running :: bool
  cluster_listening :: "int option"
  cluster_threads :: nat
  discovery_running :: bool
  discovery_threads :: nat

definition cluster_init :: cluster where
  "cluster_init =
     \<lparr>nodes = [], cluster_running = False, cluster_listening = None, cluster_threads = 0,
      discovery_running = False, discovery_threads = 0\<rparr>"

text \<open>\<open>ClusterNode(h, p, master)\<close>: a new node counts as alive.\<close>

definition new_node :: "string \<Rightarrow> int \<Rightarrow> bool \<Rightarrow> cluster_node" where
  "new_node h p m = \<lparr>cn_host = h, cn_port = p, cn_is_master = m, cn_is_alive = True\<rparr>"

definition add_node :: "string \<Rightarrow> int \<Rightarrow> bool \<Rightarrow> cluster \<Rightarrow> cluster" where
  "add_node h p m c = c\<lparr>nodes := nodes c @ [new_node h p m]\<rparr>"

definition remove_node :: "string \<Rightarrow> int \<Rightarrow> cluster \<Rightarrow> cluster" where
  "remove_node h p c = c\<lparr>nodes := filter (\<lambda>n. \<not> (cn_host n = h \<and> cn_port n = p)) (nodes c)\<rparr>"

definition get_cluster_nodes :: "cluster \<Rightarrow> cluster_node list" where
  "get_cluster_nodes c = nodes c"

definition is_cluster_healthy :: "cluster \<Rightarrow> bool" where
  "is_cluster_healthy c =
     (if nodes c = [] then False
      else (length (nodes c) + 1) div 2 \<le> length (filter cn_is_alive (nodes c)))"

section \<open>The services\<close>

definition start_cluster :: "nat \<Rightarrow> launch \<Rightarrow> int \<Rightarrow> cluster \<Rightarrow> cluster" where
  "start_cluster hw l p c =
     (if cluster_running c then c
      else case l of
          Bind_fails \<Rightarrow> c\<lparr>cluster_running := False\<rparr>
        | Spawns n \<Rightarrow>
            let wanted = 1 + thread_count 4 hw in
            if wanted \<le> n then c\<lparr>cluster_running := True, cluster_listening := Some (to_port p),
              cluster_threads := cluster_threads c + wanted\<rparr>
            else c\<lparr>cluster_running := False, cluster_listening := Some (to_port p),
              cluster_threads := cluster_threads c + n\<rparr>)"

definition stop_cluster :: "cluster \<Rightarrow> cluster" where
  "stop_cluster c =
     (if cluster_running c then
        c\<lparr>cluster_running := False, cluster_listening := None, cluster_threads := 0\<rparr>
      else c)"

definition start_node_discovery :: "cluster \<Rightarrow> cluster" where
  "start_node_discovery c =
     (if discovery_running c then c else c\<lparr>discovery_running := True, discovery_threads := 1\<rparr>)"

definition stop_node_discovery :: "cluster \<Rightarrow> cluster" where
  "stop_node_discovery c =
     (if discovery_running c then c\<lparr>discovery_running := False, discovery_threads := 0\<rparr> else c)"

text \<open>\<open>~ClusterManager\<close>.\<close>

definition cluster_destroy :: "cluster \<Rightarrow> cluster" where
  "cluster_destroy c = stop_node_discovery (stop_cluster c)"

definition can_start_cluster :: "nat \<times> launch \<times> int \<Rightarrow> cluster \<Rightarrow> bool" where
  "can_start_cluster p c \<longleftrightarrow> (case p of (hw, Spawns n, _) \<Rightarrow> 1 + thread_count 4 hw \<le> n | _ \<Rightarrow> False)"

interpretation listener: service cluster_running cluster_threads
  "\<lambda>(hw, l, p). start_cluster hw l p" stop_cluster can_start_cluster
  by unfold_locales
    (auto simp: start_cluster_def stop_cluster_def can_start_cluster_def Let_def split: launch.splits)

interpretation discovery: service discovery_running discovery_threads
  "\<lambda>(_ :: unit). start_node_discovery" stop_node_discovery "\<lambda>_ c. discovery_threads c = 0"
  by unfold_locales (auto simp: start_node_discovery_def stop_node_discovery_def)

text \<open>
  A cluster manager can be destroyed safely: from its initial state, any listener that was
  started, with every thread created, and the discovery are stopped by the destructor,
  which joins all threads and closes the port and keeps the node list.
\<close>

lemma cluster_life_cycle:
  assumes "1 + thread_count 4 hw \<le> n"
  shows "let c = start_node_discovery (start_cluster hw (Spawns n) p (cluster_init\<lparr>nodes := ns\<rparr>)) in
      cluster_running c \<and> discovery_running c \<and> cluster_listening c = Some (to_port p)
    \<and> start_cluster hw' l' p' c = c \<and> start_node_discovery c = c
    \<and> cluster_destroy c = cluster_init\<lparr>nodes := ns\<rparr>"
proof -
  let ?i = "cluster_init\<lparr>nodes := ns\<rparr>"
  have c: "can_start_cluster (hw, Spawns n, p) ?i"
    using assms by (simp add: can_start_cluster_def)
  have "listener.clean ?i" by (simp add: listener.clean_def cluster_init_def)
  from listener.start_clean [OF this c]
  have run: "cluster_running (start_node_discovery (start_cluster hw (Spawns n) p ?i))"
    by (simp add: start_node_discovery_def)
  note listener.start_running [OF run, of "(hw', l', p')"]
  then show ?thesis
    using assms by (simp add: Let_def start_cluster_def start_node_discovery_def stop_cluster_def
        stop_node_discovery_def cluster_destroy_def cluster_init_def)
qed

section \<open>Answering other nodes\<close>

text \<open>One chunk of at most 1024 bytes, and the response \<open>handleNodeConnection\<close> writes.\<close>

definition node_response :: "string \<Rightarrow> string" where
  "node_response cmd =
     (if substr cmd 0 5 = ''PING '' then ''PONG'' @ crlf
      else if substr cmd 0 4 = ''NODE'' then ''NODE_OK'' @ crlf
      else ''COMMAND_PROCESSED'' @ crlf)"

text \<open>
  A connection: in each round the loop condition (\<open>cluster_running_ && socket.is_open()\<close>) and how
  the read ends, with a chunk or with the end of the stream or an error; the responses written.
\<close>

primrec handle_node_connection :: "(bool \<times> string option) list \<Rightarrow> string list" where
  "handle_node_connection [] = []"
| "handle_node_connection (r # rs) =
     (case r of (running, input) \<Rightarrow>
        if \<not> running then []
        else (case input of None \<Rightarrow> []
            | Some cmd \<Rightarrow> node_response cmd # handle_node_connection rs))"

text \<open>
  \<open>clusterAcceptLoop\<close>: nothing without an acceptor and its context; otherwise every connection
  accepted is handled by a thread of its own. The result lists what each of them writes.
\<close>

definition cluster_accept_loop ::
    "bool \<Rightarrow> (bool \<times> (bool \<times> string option) list accept_result \<times> bool) list \<Rightarrow> string list list" where
  "cluster_accept_loop created rounds =
     (if created then map handle_node_connection (accept_loop rounds) else [])"

section \<open>Pinging\<close>

text \<open>
  The network during one exchange with a host. Resolving gives an endpoint, reading the answer
  to what was written; \<open>Failed\<close> is an error code and \<open>Threw\<close> an exception. Reading has no time
  limit: \<open>None\<close> if the peer neither answers nor closes, and the call never returns. Resolving
  and connecting end by the time limits of the system, and the few bytes written fit into the
  send buffer.
\<close>

datatype net_error = Failed | Threw

record 'e network =
  net_resolve :: "string \<Rightarrow> string \<Rightarrow> net_error + 'e"
  net_connect :: "'e \<Rightarrow> net_error option"
  net_write :: "'e \<Rightarrow> string \<Rightarrow> net_error option"
  net_read_some :: "'e \<Rightarrow> string \<Rightarrow> (net_error + string) option"

text \<open>Resolve, connect, write, read: the answer, or the first error, or nothing ever.\<close>

definition exchange :: "'e network \<Rightarrow> string \<Rightarrow> string \<Rightarrow> string \<Rightarrow> (net_error + string) option" where
  "exchange net h p request = (case net_resolve net h p of
     Inl e \<Rightarrow> Some (Inl e)
   | Inr endpoints \<Rightarrow> (case net_connect net endpoints of
       Some e \<Rightarrow> Some (Inl e)
     | None \<Rightarrow> (case net_write net endpoints request of
         Some e \<Rightarrow> Some (Inl e)
       | None \<Rightarrow> net_read_some net endpoints request)))"

definition ping_request :: string where
  "ping_request = ''PING CLUSTER'' @ crlf"

text \<open>
  One node of \<open>pingNodes\<close>: it is alive when the answer contains \<open>PONG\<close> (at most the first 256
  bytes are read), not alive after any error code or exception.
\<close>

definition ping_node :: "'e network \<Rightarrow> cluster_node \<Rightarrow> cluster_node option" where
  "ping_node net n = (case exchange net (cn_host n) (to_string (cn_port n)) ping_request of
     None \<Rightarrow> None
   | Some (Inr answer) \<Rightarrow> Some (n\<lparr>cn_is_alive := contains ''PONG'' (take 256 answer)\<rparr>)
   | Some (Inl _) \<Rightarrow> Some (n\<lparr>cn_is_alive := False\<rparr>))"

definition ping_nodes :: "'e network \<Rightarrow> cluster \<Rightarrow> cluster option" where
  "ping_nodes net c =
     map_option (\<lambda>ns. c\<lparr>nodes := ns\<rparr>) (those (map (ping_node net) (nodes c)))"

text \<open>\<open>nodeDiscoveryLoop\<close>: one ping round per iteration, with the network of that moment.\<close>

primrec node_discovery_loop :: "'e network list \<Rightarrow> cluster \<Rightarrow> cluster option" where
  "node_discovery_loop [] c = Some c"
| "node_discovery_loop (net # nets) c =
     (case ping_nodes net c of None \<Rightarrow> None | Some c' \<Rightarrow> node_discovery_loop nets c')"

text \<open>\<open>routeRequest\<close> prints the key and always asks \<open>localhost:7379\<close>.\<close>

definition route_request :: "'e network \<Rightarrow> string \<Rightarrow> string \<Rightarrow> bool option" where
  "route_request net key cmd =
     map_option (\<lambda>res. case res of Inr _ \<Rightarrow> True | Inl _ \<Rightarrow> False)
       (exchange net ''localhost'' ''7379'' (cmd @ crlf))"

section \<open>Hash slots\<close>

text \<open>
  \<open>size_t\<close> is 64 bits wide. A \<open>char\<close> is signed, as on the platforms the build supports, so a
  byte above 127 is subtracted.
\<close>

definition signed_char :: "char \<Rightarrow> int" where
  "signed_char c = (let n = of_char c :: int in if n < 128 then n else n - 256)"

definition hash_step :: "64 word \<Rightarrow> char \<Rightarrow> 64 word" where
  "hash_step hash c = (push_bit 5 hash + hash) + word_of_int (signed_char c)"

definition calculate_hash_slot :: "string \<Rightarrow> nat" where
  "calculate_hash_slot key = unat (foldl hash_step 5381 key mod 16384)"

text \<open>The pointer the source returns is the index of the node in the vector.\<close>

definition find_node_for_slot :: "nat \<Rightarrow> cluster \<Rightarrow> nat option" where
  "find_node_for_slot slot c =
     (if nodes c = [] then None else Some (slot mod length (nodes c)))"

section \<open>The node list\<close>

text \<open>
  The node list is kept in the order of registration: \<open>removeNode\<close> removes every node with
  the host and port and no other, undoes an \<open>addNode\<close> of a new address, commutes with the
  registration of other addresses, and a second removal changes nothing.
\<close>

lemma node_list_operations:
  "nodes (add_node h p m c) = nodes c @ [\<lparr>cn_host = h, cn_port = p, cn_is_master = m, cn_is_alive = True\<rparr>]
   \<and> (\<forall>n. n \<in> set (nodes (remove_node h p c)) \<longleftrightarrow> n \<in> set (nodes c) \<and> (cn_host n, cn_port n) \<noteq> (h, p))
   \<and> remove_node h p (add_node h p m c) = remove_node h p c
   \<and> ((h', p') \<noteq> (h, p) \<longrightarrow>
        remove_node h p (add_node h' p' m c) = add_node h' p' m (remove_node h p c))
   \<and> remove_node h p (remove_node h p c) = remove_node h p c"
  by (auto simp: add_node_def remove_node_def new_node_def)

lemma half_le: "(n + 1) div 2 \<le> k \<longleftrightarrow> n \<le> 2 * (k :: nat)"
  by linarith

text \<open>Whether the exchange with a node ends, and whether it ends with \<open>PONG\<close>.\<close>

definition replies :: "'e network \<Rightarrow> cluster_node \<Rightarrow> bool" where
  "replies net n \<longleftrightarrow> exchange net (cn_host n) (to_string (cn_port n)) ping_request \<noteq> None"

definition answers :: "'e network \<Rightarrow> cluster_node \<Rightarrow> bool" where
  "answers net n = (case exchange net (cn_host n) (to_string (cn_port n)) ping_request of
     Some (Inr answer) \<Rightarrow> contains ''PONG'' (take 256 answer) | _ \<Rightarrow> False)"

lemma ping_node_alive:
  "ping_node net n = (if replies net n then Some (n\<lparr>cn_is_alive := answers net n\<rparr>) else None)"
  by (simp add: ping_node_def answers_def replies_def split: option.splits sum.splits)

lemma answers_same [simp]:
  "answers net (n\<lparr>cn_is_alive := b\<rparr>) = answers net n" "replies net (n\<lparr>cn_is_alive := b\<rparr>) = replies net n"
  by (simp_all add: answers_def replies_def)

lemma those_map_if:
  "those (map (\<lambda>x. if P x then Some (f x) else None) xs) = (if list_all P xs then Some (map f xs) else None)"
  by (induction xs) simp_all

lemma ping_nodes_marks:
  "ping_nodes net c = (if list_all (replies net) (nodes c)
     then Some (c\<lparr>nodes := map (\<lambda>n. n\<lparr>cn_is_alive := answers net n\<rparr>) (nodes c)\<rparr>) else None)"
proof -
  have "ping_node net = (\<lambda>n. if replies net n then Some (n\<lparr>cn_is_alive := answers net n\<rparr>) else None)"
    by (simp add: fun_eq_iff ping_node_alive)
  then show ?thesis by (simp add: ping_nodes_def those_map_if)
qed

lemma node_discovery_loop_snoc:
  "node_discovery_loop (nets @ [net]) c = 
     (case node_discovery_loop nets c of None \<Rightarrow> None | Some c' \<Rightarrow> ping_nodes net c')"
  by (induction nets arbitrary: c) (simp_all split: option.split)

lemma list_all_marked: "list_all (replies net) (map (\<lambda>n. n\<lparr>cn_is_alive := f n\<rparr>) ns) = list_all (replies net) ns"
  by (simp add: list_all_iff)

lemma node_discovery_nodes:
  "\<exists>alive. node_discovery_loop nets c = (if list_all (\<lambda>net. list_all (replies net) (nodes c)) nets
     then Some (c\<lparr>nodes := map (\<lambda>n. n\<lparr>cn_is_alive := alive n\<rparr>) (nodes c)\<rparr>) else None)"
proof (induction nets rule: rev_induct)
  case Nil
  have "map (\<lambda>n. n\<lparr>cn_is_alive := cn_is_alive n\<rparr>) (nodes c) = nodes c" by (simp add: map_idI)
  then show ?case by (intro exI [of _ cn_is_alive]) simp
next
  case (snoc net nets)
  then show ?case
    by (intro exI [of _ "answers net"])
      (auto simp: node_discovery_loop_snoc ping_nodes_marks list_all_marked comp_def)
qed

lemma node_pong: "node_response ping_request = ''PONG'' @ crlf"
  by (simp add: node_response_def ping_request_def substr_def)

lemma session_pong: "fst (run_state (handle_command (chunk_command ping_request)) w) = ''PONG'' @ crlf"
proof -
  have "chunk_command ping_request = unwords [''PING'', ''CLUSTER'']"
    by (simp add: chunk_command_def ping_request_def crlf_def)
  moreover have "tokens (unwords [''PING'', ''CLUSTER'']) = [''PING'', ''CLUSTER'']"
    by (rule tokens_unwords) (simp add: is_token_def isspace_def)
  ultimately have "parse (chunk_command ping_request) = \<lparr>ctype = PING, args = []\<rparr>"
    by (simp only: parse_def) (simp add: Let_def toupper_def)
  then show ?thesis by (simp add: handle_command_def execute_defs line_def)
qed

lemma pong_recognised: "contains ''PONG'' (take 256 (''PONG'' @ crlf))"
  by (simp add: crlf_def)

text \<open>
  C34. Discovery: the loop never ends a round in which some node neither answers nor closes the
  connection; after rounds in which none does so, exactly those nodes are alive that
  answered the last ping with \<open>PONG\<close>; addresses, roles and order are untouched; the
  cluster is healthy exactly when it has nodes and at least half of them answered; and what
  \<open>handleNodeConnection\<close> of another node, or a client session of one, answers to the ping is
  recognised as \<open>PONG\<close>.
\<close>

theorem discovery_marks_answering_nodes:
  "node_discovery_loop (nets @ [net]) c =
     (if list_all (\<lambda>net. list_all (replies net) (nodes c)) (nets @ [net])
      then Some (c\<lparr>nodes := map (\<lambda>n. n\<lparr>cn_is_alive := answers net n\<rparr>) (nodes c)\<rparr>) else None)
   \<and> is_cluster_healthy (c\<lparr>nodes := map (\<lambda>n. n\<lparr>cn_is_alive := answers net n\<rparr>) (nodes c)\<rparr>) =
      (nodes c \<noteq> [] \<and> length (nodes c) \<le> 2 * length (filter (answers net) (nodes c)))
   \<and> contains ''PONG'' (take 256 (node_response ping_request))
   \<and> contains ''PONG'' (take 256 (fst (run_state (handle_command (chunk_command ping_request)) w)))"
proof (intro conjI)
  obtain alive where "node_discovery_loop nets c = (if list_all (\<lambda>net. list_all (replies net) (nodes c)) nets
      then Some (c\<lparr>nodes := map (\<lambda>n. n\<lparr>cn_is_alive := alive n\<rparr>) (nodes c)\<rparr>) else None)"
    using node_discovery_nodes by blast
  then show "node_discovery_loop (nets @ [net]) c =
     (if list_all (\<lambda>net. list_all (replies net) (nodes c)) (nets @ [net])
      then Some (c\<lparr>nodes := map (\<lambda>n. n\<lparr>cn_is_alive := answers net n\<rparr>) (nodes c)\<rparr>) else None)"
    by (simp add: node_discovery_loop_snoc ping_nodes_marks list_all_marked comp_def)
  have "length (filter cn_is_alive (map (\<lambda>n. n\<lparr>cn_is_alive := answers net n\<rparr>) ns))
      = length (filter (answers net) ns)" for ns
    by (induction ns) simp_all
  then show "is_cluster_healthy (c\<lparr>nodes := map (\<lambda>n. n\<lparr>cn_is_alive := answers net n\<rparr>) (nodes c)\<rparr>) =
      (nodes c \<noteq> [] \<and> length (nodes c) \<le> 2 * length (filter (answers net) (nodes c)))"
    unfolding is_cluster_healthy_def half_le by simp
qed (simp_all add: node_pong session_pong pong_recognised)

text \<open>
  Of a whole exchange: a server that answers with \<open>handleNodeConnection\<close> on its
  cluster port, or with a client session on its client port, is found alive.
\<close>

lemma ping_recognised:
  assumes "net_resolve net (cn_host n) (to_string (cn_port n)) = Inr e"
    and "net_connect net e = None" and "net_write net e ping_request = None"
    and "net_read_some net e ping_request = Some (Inr (node_response ping_request))
      \<or> net_read_some net e ping_request =
        Some (Inr (fst (run_state (handle_command (chunk_command ping_request)) w)))"
  shows "ping_node net n = Some (n\<lparr>cn_is_alive := True\<rparr>)"
proof -
  have "exchange net (cn_host n) (to_string (cn_port n)) ping_request = Some (Inr (''PONG'' @ crlf))"
    using assms by (auto simp: exchange_def node_pong session_pong)
  then show ?thesis by (simp add: ping_node_alive answers_def replies_def pong_recognised)
qed

text \<open>Once the flag is cleared, the accept loop handles no connection more.\<close>

lemma cluster_accept_loop_stops:
  "cluster_accept_loop created (rounds @ (False, r, b) # later) = cluster_accept_loop created rounds"
  by (simp add: cluster_accept_loop_def accept_loop_stops)

section \<open>The hash slots\<close>

text \<open>djb2 over the integers: \<open>hash * 33 + c\<close> from 5381.\<close>

definition djb2 :: "string \<Rightarrow> int" where
  "djb2 key = foldl (\<lambda>h c. h * 33 + signed_char c) 5381 key"

lemma hash_step_int: "hash_step (word_of_int h) c = word_of_int (h * 33 + signed_char c)"
  by (simp add: hash_step_def push_bit_eq_mult flip: wi_hom_add wi_hom_mult)

lemma hash_fold_int: "foldl hash_step (word_of_int h) key = word_of_int (foldl (\<lambda>h c. h * 33 + signed_char c) h key)"
  by (induction key arbitrary: h) (simp_all only: foldl_Cons foldl_Nil hash_step_int)

lemma slot_djb2: "int (calculate_hash_slot key) = djb2 key mod 16384"
proof -
  have "foldl hash_step 5381 key = word_of_int (djb2 key)"
    using hash_fold_int [of 5381 key] by (simp add: djb2_def)
  then have "int (calculate_hash_slot key) = uint (word_of_int (djb2 key) mod 16384 :: 64 word)"
    by (simp add: calculate_hash_slot_def)
  also have "\<dots> = (djb2 key mod 2 ^ 64) mod 16384"
    by (simp add: uint_mod uint_word_of_int)
  also have "\<dots> = djb2 key mod 16384"
    by (simp add: mod_mod_cancel)
  finally show ?thesis .
qed

text \<open>
  C36. Hash slots: the 64-bit hash with its wrap-around gives the same slot as djb2 over the
  integers, since 16384 divides 2 to the 64; a slot is below 16384; and the hash of a key
  with a character appended follows from the hash of the key.
\<close>

theorem hash_slot_arithmetic:
  "int (calculate_hash_slot key) = djb2 key mod 16384
   \<and> calculate_hash_slot key < 16384
   \<and> int (calculate_hash_slot (key @ [c])) = (33 * int (calculate_hash_slot key) + signed_char c) mod 16384"
proof -
  have "int (calculate_hash_slot key) < 16384" by (simp add: slot_djb2)
  then have "calculate_hash_slot key < 16384" by linarith
  moreover have "djb2 (key @ [c]) = 33 * djb2 key + signed_char c" by (simp add: djb2_def)
  then have "int (calculate_hash_slot (key @ [c])) = (33 * (djb2 key mod 16384) + signed_char c) mod 16384"
    by (simp only: slot_djb2) (metis mod_add_left_eq mod_mult_right_eq)
  ultimately show ?thesis by (simp add: slot_djb2)
qed

text \<open>The slots a node is responsible for.\<close>

definition slots_of :: "nat \<Rightarrow> cluster \<Rightarrow> nat set" where
  "slots_of i c = {s. s < 16384 \<and> find_node_for_slot s c = Some i}"

lemma card_residues: "i < n \<Longrightarrow> card {s. s < N \<and> s mod n = i} = N div n + (if i < N mod n then 1 else 0)"
proof (induction N)
  case 0
  then show ?case by simp
next
  case (Suc N)
  have "{s. s < Suc N \<and> s mod n = i} = {s. s < N \<and> s mod n = i} \<union> (if N mod n = i then {N} else {})"
    by (auto simp: less_Suc_eq)
  then have "card {s. s < Suc N \<and> s mod n = i} = card {s. s < N \<and> s mod n = i} + (if N mod n = i then 1 else 0)"
    by (subst (1) \<open>_ = _\<close>, subst card_Un_disjoint) auto
  also have "\<dots> = N div n + (if i < N mod n then 1 else 0) + (if N mod n = i then 1 else 0)"
    using Suc by simp
  also have "\<dots> = Suc N div n + (if i < Suc N mod n then 1 else 0)"
    using Suc.prems by (auto simp: div_Suc mod_Suc)
  finally show ?case .
qed

text \<open>
  Every slot of a non-empty cluster belongs to exactly one node, a valid index of the list,
  and the slots are balanced: each node has the 16384 slots divided by the number of nodes,
  rounded down, or one more.
\<close>

lemma slots_are_balanced:
  assumes "i < length (nodes c)"
  shows "(\<exists>j. find_node_for_slot (calculate_hash_slot key) c = Some j \<and> j < length (nodes c))
    \<and> card (slots_of i c) =
        16384 div length (nodes c) + (if i < 16384 mod length (nodes c) then 1 else 0)"
proof -
  have ne: "nodes c \<noteq> []" using assms by auto
  then have "slots_of i c = {s. s < 16384 \<and> s mod length (nodes c) = i}"
    by (simp add: slots_of_def find_node_for_slot_def)
  then have "card (slots_of i c) =
      16384 div length (nodes c) + (if i < 16384 mod length (nodes c) then 1 else 0)"
    by (simp only: card_residues [OF assms])
  with ne show ?thesis by (simp add: find_node_for_slot_def)
qed

end
