(* ===== verification/Cluster_Concurrency.thy ===== *)
theory Cluster_Concurrency
  imports Cluster Critical_Sections
begin

text \<open>
  \<open>ClusterManager\<close> under concurrency: its node list is used by the discovery thread and by
  every caller of the public operations, all under \<open>nodes_mutex_\<close>. Each operation is given as
  the small steps of its body (one element of the vector at a time, the exchange with a node
  apart from marking it), and \<open>Cluster\<close>'s definition of it is what the body does as a whole.
  The interpretation of \<open>guarded\<close> then gives the serialisability of all concurrent calls, and
  that they finish unless a pinged node stays silent.
\<close>

section \<open>The operations and their locks\<close>

datatype 'e node_op =
    Op_add string int bool
  | Op_remove string int
  | Op_ping "'e network"
  | Op_nodes
  | Op_healthy
  | Op_find nat

datatype node_result = Done | Node_list "cluster_node list" | Healthy bool | Found "nat option"

text \<open>\<open>std::unique_lock\<close> or \<open>std::shared_lock\<close>.\<close>

primrec lock_mode :: "'e node_op \<Rightarrow> mode" where
  "lock_mode (Op_add h p m) = Exclusive"
| "lock_mode (Op_remove h p) = Exclusive"
| "lock_mode (Op_ping net) = Exclusive"
| "lock_mode Op_nodes = Shared"
| "lock_mode Op_healthy = Shared"
| "lock_mode (Op_find slot) = Exclusive"

section \<open>The bodies\<close>

type_synonym node_body = "(cluster_node list, node_result) body"

definition add_body :: "string \<Rightarrow> int \<Rightarrow> bool \<Rightarrow> node_body" where
  "add_body h p m = Step (\<lambda>ns. (ns @ [new_node h p m], Return Done))"

text \<open>
  \<open>std::remove_if\<close> moves the nodes that stay to the front, \<open>erase\<close> drops the tail: \<open>i\<close> is the
  node looked at, \<open>w\<close> the place of the next one that stays, \<open>k\<close> how many are left.
\<close>

primrec remove_loop :: "string \<Rightarrow> int \<Rightarrow> nat \<Rightarrow> nat \<Rightarrow> nat \<Rightarrow> node_body" where
  "remove_loop h p 0 i w = Step (\<lambda>ns. (take w ns, Return Done))"
| "remove_loop h p (Suc k) i w = Step (\<lambda>ns.
     if cn_host (ns ! i) = h \<and> cn_port (ns ! i) = p then (ns, remove_loop h p k (Suc i) w)
     else (ns[w := ns ! i], remove_loop h p k (Suc i) (Suc w)))"

definition remove_body :: "string \<Rightarrow> int \<Rightarrow> node_body" where
  "remove_body h p = Step (\<lambda>ns. (ns, remove_loop h p (length ns) 0 0))"

text \<open>
  \<open>pingNodes\<close>: for each node, read its address and ask it, then write \<open>is_alive\<close>; a node that
  stays silent is waited for without an end.
\<close>

primrec ping_loop :: "'e network \<Rightarrow> nat \<Rightarrow> nat \<Rightarrow> node_body" where
  "ping_loop net 0 i = Return Done"
| "ping_loop net (Suc k) i = Step (\<lambda>ns. (ns, case ping_node net (ns ! i) of
     None \<Rightarrow> Hang
   | Some n \<Rightarrow> Step (\<lambda>ns. (ns[i := (ns ! i)\<lparr>cn_is_alive := cn_is_alive n\<rparr>], ping_loop net k (Suc i)))))"

definition ping_body :: "'e network \<Rightarrow> node_body" where
  "ping_body net = Step (\<lambda>ns. (ns, ping_loop net (length ns) 0))"

text \<open>\<open>return nodes_\<close> copies the vector.\<close>

primrec copy_loop :: "nat \<Rightarrow> nat \<Rightarrow> cluster_node list \<Rightarrow> node_body" where
  "copy_loop 0 i acc = Return (Node_list acc)"
| "copy_loop (Suc k) i acc = Step (\<lambda>ns. (ns, copy_loop k (Suc i) (acc @ [ns ! i])))"

definition nodes_body :: node_body where
  "nodes_body = Step (\<lambda>ns. (ns, copy_loop (length ns) 0 []))"

primrec count_loop :: "nat \<Rightarrow> nat \<Rightarrow> nat \<Rightarrow> node_body" where
  "count_loop 0 i alive = Step (\<lambda>ns. (ns, Return (Healthy ((length ns + 1) div 2 \<le> alive))))"
| "count_loop (Suc k) i alive = Step (\<lambda>ns.
     (ns, count_loop k (Suc i) (if cn_is_alive (ns ! i) then alive + 1 else alive)))"

definition healthy_body :: node_body where
  "healthy_body = Step (\<lambda>ns. (ns,
     if ns = [] then Return (Healthy False) else count_loop (length ns) 0 0))"

definition find_body :: "nat \<Rightarrow> node_body" where
  "find_body slot = Step (\<lambda>ns. (ns, if ns = [] then Return (Found None)
     else Step (\<lambda>ns. (ns, Return (Found (Some (slot mod length ns)))))))"

primrec node_op_body :: "'e node_op \<Rightarrow> node_body" where
  "node_op_body (Op_add h p m) = add_body h p m"
| "node_op_body (Op_remove h p) = remove_body h p"
| "node_op_body (Op_ping net) = ping_body net"
| "node_op_body Op_nodes = nodes_body"
| "node_op_body Op_healthy = healthy_body"
| "node_op_body (Op_find slot) = find_body slot"

section \<open>What a body does as a whole\<close>

definition with_nodes :: "cluster_node list \<Rightarrow> cluster" where
  "with_nodes ns = cluster_init\<lparr>nodes := ns\<rparr>"

lemma nodes_with_nodes [simp]: "nodes (with_nodes ns) = ns"
  by (simp add: with_nodes_def)

primrec node_op_whole :: "'e node_op \<Rightarrow> cluster_node list \<Rightarrow> (cluster_node list \<times> node_result) option" where
  "node_op_whole (Op_add h p m) ns = Some (nodes (add_node h p m (with_nodes ns)), Done)"
| "node_op_whole (Op_remove h p) ns = Some (nodes (remove_node h p (with_nodes ns)), Done)"
| "node_op_whole (Op_ping net) ns = map_option (\<lambda>c. (nodes c, Done)) (ping_nodes net (with_nodes ns))"
| "node_op_whole Op_nodes ns = Some (ns, Node_list (get_cluster_nodes (with_nodes ns)))"
| "node_op_whole Op_healthy ns = Some (ns, Healthy (is_cluster_healthy (with_nodes ns)))"
| "node_op_whole (Op_find slot) ns = Some (ns, Found (find_node_for_slot slot (with_nodes ns)))"

lemma run_remove_loop:
  assumes "length ns = i + k" and "w \<le> i"
  shows "run_body (remove_loop h p k i w) ns =
    Some (take w ns @ filter (\<lambda>n. \<not> (cn_host n = h \<and> cn_port n = p)) (drop i ns), Done)"
  using assms
proof (induction k arbitrary: i w ns)
  case (Suc k)
  then have split: "drop i ns = ns ! i # drop (Suc i) ns" "w < length ns"
    by (auto simp: Cons_nth_drop_Suc)
  then have "take (Suc w) (ns[w := x]) = take w ns @ [x]" "drop (Suc i) (ns[w := x]) = drop (Suc i) ns" for x
    using Suc.prems by (simp_all add: take_Suc_conv_app_nth)
  with Suc split show ?case by simp
qed simp

lemma run_ping_loop:
  assumes "length ns = i + k"
  shows "run_body (ping_loop net k i) ns =
    map_option (\<lambda>ms. (take i ns @ ms, Done)) (those (map (ping_node net) (drop i ns)))"
  using assms
proof (induction k arbitrary: i ns)
  case (Suc k)
  let ?n = "ns ! i"
  have i: "i < length ns" using Suc.prems by simp
  then have split: "drop i ns = ?n # drop (Suc i) ns" by (simp add: Cons_nth_drop_Suc)
  have marked: "?n\<lparr>cn_is_alive := cn_is_alive m\<rparr> = m" if "ping_node net ?n = Some m" for m
    using that by (auto simp: ping_node_alive split: if_splits)
  have "take (Suc i) (ns[i := x]) = take i ns @ [x]" "drop (Suc i) (ns[i := x]) = drop (Suc i) ns" for x
    using i by (simp_all add: take_Suc_conv_app_nth)
  then show ?case
    using Suc split by (cases "ping_node net ?n") (simp_all add: marked option.map_comp comp_def)
qed simp

lemma run_copy_loop:
  "length ns = i + k \<Longrightarrow> run_body (copy_loop k i acc) ns = Some (ns, Node_list (acc @ drop i ns))"
  by (induction k arbitrary: i acc) (simp_all add: Cons_nth_drop_Suc)

lemma run_count_loop:
  "length ns = i + k \<Longrightarrow> run_body (count_loop k i a) ns =
     Some (ns, Healthy ((length ns + 1) div 2 \<le> a + length (filter cn_is_alive (drop i ns))))"
  by (induction k arbitrary: i a) (simp_all add: Cons_nth_drop_Suc [symmetric])

lemma reads_copy_loop: "only_reads (copy_loop k i acc)"
  by (induction k arbitrary: i acc) simp_all

lemma reads_count_loop: "only_reads (count_loop k i a)"
  by (induction k arbitrary: i a) simp_all

lemmas node_bodies = add_body_def remove_body_def ping_body_def nodes_body_def healthy_body_def
  find_body_def

interpretation node_list: guarded Nodes_mutex lock_mode node_op_body node_op_whole
proof
  show "run_body (node_op_body op) ns = node_op_whole op ns" for op :: "'e node_op" and ns
    by (cases op)
      (simp_all add: node_bodies run_remove_loop run_ping_loop run_copy_loop run_count_loop
        option.map_comp comp_def add_node_def remove_node_def ping_nodes_def get_cluster_nodes_def is_cluster_healthy_def
        find_node_for_slot_def)
  show "lock_mode op = Shared \<Longrightarrow> only_reads (node_op_body op)" for op :: "'e node_op"
    by (cases op) (simp_all add: node_bodies reads_copy_loop reads_count_loop)
qed

section \<open>Concurrent calls\<close>

text \<open>The code of a thread that makes the calls one after the other.\<close>

definition node_program :: "'e node_op list \<Rightarrow> (cluster_node list, node_result) instr list" where
  "node_program ops =
     concat (map (\<lambda>op. guarded_call Nodes_mutex (lock_mode op) (node_op_body op)) ops)"

lemma node_program_eq: "(\<lambda>t. node_program (ps t)) = (\<lambda>t. node_list.program (ps t))"
  by (simp add: node_program_def node_list.program_def)

text \<open>
  C20. Serialisability of the node list: any number of threads add, remove, ping, list, look up and
  judge nodes concurrently, their steps interleaved in any way the mutex permits. In every
  state reached, the results returned so far are those of the whole operations run one after
  the other in an order that respects each thread's own, and so is the list whenever no thread
  holds the mutex exclusively. A ping of a node that stays silent never returns, and is not
  among those calls.
\<close>

theorem cluster_calls_serialise:
  assumes "shared_reachable (\<lambda>t. node_program (ps t)) ns s"
  shows "\<exists>h rest ns'. (\<forall>t. ps t = calls_of t h @ rest t)
    \<and> serially node_op_whole h ns (\<lambda>_. []) = Some (ns', results s)
    \<and> (writer (locks s) Nodes_mutex = None \<longrightarrow> data s = ns')
    \<and> (\<forall>t. code s t = [] \<longrightarrow> rest t = [])"
  using assms unfolding node_program_eq by (rule node_list.serialisable)

theorem cluster_calls_serialise_witness:
  "\<exists>h. calls_of 0 h = [Op_add ''a'' 1 True] \<and> calls_of 1 h = [Op_find 7]
    \<and> serially node_op_whole (h :: (nat \<times> unit node_op) list) [] (\<lambda>_. []) =
      Some ([new_node ''a'' 1 True], (\<lambda>_. [])(0 := [Done], 1 := [Found (Some 0)]))"
proof -
  let ?ps = "\<lambda>t. if t = 0 then [Op_add ''a'' 1 True] else if t = 1 then [Op_find 7] else [] :: unit node_op list"
  let ?init = "shared_init (\<lambda>t. node_program (?ps t)) []"
  let ?ts = "[0, 0, 0, 0, 1, 1, 1, 1, 1]"
  obtain s where s: "run_schedule ?ts ?init = Some s" "writer (locks s) Nodes_mutex = None"
    "data s = [new_node ''a'' 1 True]" "results s = (\<lambda>_. [])(0 := [Done], 1 := [Found (Some 0)])"
    "code s 0 = []" "code s 1 = []"
    by (simp add: shared_init_def lock_init_def node_program_def guarded_call_def acquire_def
        release_def shared_move_def lock_move_def node_bodies)
  from s(1) have "shared_reachable (\<lambda>t. node_program (?ps t)) [] s"
    by (rule run_schedule_reachable) (rule shared_reachable.start)
  from cluster_calls_serialise [OF this] obtain h rest ns'
    where h: "\<forall>t. ?ps t = calls_of t h @ rest t" "serially node_op_whole h [] (\<lambda>_. []) = Some (ns', results s)"
      "writer (locks s) Nodes_mutex = None \<longrightarrow> data s = ns'" "\<forall>t. code s t = [] \<longrightarrow> rest t = []"
    by (elim exE conjE)
  then have "rest 0 = []" "rest 1 = []" "ns' = [new_node ''a'' 1 True]" using s by simp_all
  then show ?thesis
    using spec [OF h(1), of 0] spec [OF h(1), of 1] h(2) s(4) by (intro exI [of _ h]) simp
qed

text \<open>
  C21. Concurrent calls on the node list finish, provided that no ping waits for a node that
  neither answers nor closes its connection: with finitely many threads no schedule is
  infinite, and as long as some thread has a call to finish some thread can move, so every
  schedule ends with all calls returned.
\<close>

theorem cluster_calls_finish:
  assumes "\<forall>t \<ge> N. ps t = []"
    and "\<forall>t net h p. Op_ping net \<in> set (ps t) \<longrightarrow> exchange net h p ping_request \<noteq> None"
  shows "wf {(s', s). shared_reachable (\<lambda>t. node_program (ps t)) ns s \<and> (\<exists>t. shared_step t s s')}
    \<and> (\<forall>s t. shared_reachable (\<lambda>t. node_program (ps t)) ns s \<and> code s t \<noteq> [] \<longrightarrow>
        (\<exists>u s'. shared_step u s s'))"
proof
  show "wf {(s', s). shared_reachable (\<lambda>t. node_program (ps t)) ns s \<and> (\<exists>t. shared_step t s s')}"
    using assms(1) by (intro shared_step_wf [of N]) (simp add: node_program_def)
  have "node_op_whole op ns \<noteq> None" if "op \<in> set (ps t)" for op t ns
    using assms(2) that by (cases op) (auto simp: ping_nodes_marks replies_def list_all_iff)
  then show "\<forall>s t. shared_reachable (\<lambda>t. node_program (ps t)) ns s \<and> code s t \<noteq> [] \<longrightarrow>
      (\<exists>u s'. shared_step u s s')"
    unfolding node_program_eq using node_list.no_deadlock by blast
qed

text \<open>A network that refuses every connection, for the instance below.\<close>

definition refusing :: "unit network" where
  "refusing = \<lparr>net_resolve = (\<lambda>h p. Inr ()), net_connect = (\<lambda>_. Some Failed),
     net_write = (\<lambda>_ _. None), net_read_some = (\<lambda>_ _. None)\<rparr>"

theorem cluster_calls_finish_witness:
  "wf {(s', s). shared_reachable (\<lambda>t. node_program
        (if t = 0 then [Op_add ''a'' 1 True, Op_ping refusing] else if t = 1 then [Op_healthy] else [])) [] s
      \<and> (\<exists>t. shared_step t s s')}"
proof -
  let ?ps = "\<lambda>t. if t = 0 then [Op_add ''a'' 1 True, Op_ping refusing] else if t = 1 then [Op_healthy] else []"
  have "\<forall>(t :: nat) net h p. Op_ping net \<in> set (?ps t) \<longrightarrow> exchange net h p ping_request \<noteq> None"
    by (auto simp: exchange_def refusing_def)
  from cluster_calls_finish [OF _ this, of 2 "[]"] show ?thesis by simp
qed

text \<open>
  The proviso is needed: if one node stays silent, a ping holds the mutex for ever, and there
  is a schedule after which no thread moves again, whatever calls the others make.
\<close>

lemma silent_node_stops_all:
  assumes "ping_node net n = None" and "ps 0 = [Op_ping net]"
  shows "\<exists>s. shared_reachable (\<lambda>t. node_program (ps t)) [n] s \<and> code s 0 \<noteq> []
    \<and> (\<forall>u s'. \<not> shared_step u s s')"
proof -
  let ?init = "shared_init (\<lambda>t. node_program (ps t)) [n]"
  obtain s rest where s: "run_schedule [0, 0, 0] ?init = Some s" "writer (locks s) Nodes_mutex = Some 0"
    "code s 0 = Body Hang # rest"
    using assms by (simp add: shared_init_def lock_init_def node_program_def guarded_call_def acquire_def
        release_def shared_move_def lock_move_def node_bodies)
  have reach: "shared_reachable (\<lambda>t. node_program (ps t)) [n] s"
    using s(1) by (rule run_schedule_reachable) (rule shared_reachable.start)
  then have "\<not> shared_step u s s'" for u s'
    using s(2,3) unfolding node_program_eq by (rule node_list.hanging_writer_stops_all)
  with reach s(3) show ?thesis by auto
qed

text \<open>
  \<open>pingNodes\<close> keeps the mutex during its exchanges with the nodes: until the last node has
  answered, no call of any other thread makes a step, \<open>isClusterHealthy\<close> and
  \<open>getClusterNodes\<close> included.
\<close>

lemma pinging_blocks_all_others:
  assumes "shared_reachable (\<lambda>t. node_program (ps t)) ns s" and "u \<noteq> t"
    and "writer (locks s) Nodes_mutex = Some t" and "code s t = Body (ping_loop net k i) # rest"
  shows "\<not> shared_step u s s'"
  using assms(1,3,2) unfolding node_program_eq by (rule node_list.writer_blocks)

text \<open>
  The pointer \<open>findNodeForSlot\<close> returns points into the vector and is used without the mutex: a
  node found may be gone by then.
\<close>

lemma slot_pointer_may_dangle:
  "\<exists>s. shared_reachable (\<lambda>t. node_program (if t = 0 then [Op_find 3]
        else if t = 1 then [Op_remove ''a'' 1] else [] :: unit node_op list)) [new_node ''a'' 1 True] s
    \<and> results s 0 = [Found (Some 0)] \<and> data s = []"
proof -
  let ?ps = "\<lambda>t. if t = 0 then [Op_find 3] else if t = 1 then [Op_remove ''a'' 1] else [] :: unit node_op list"
  let ?init = "shared_init (\<lambda>t. node_program (?ps t)) [new_node ''a'' 1 True]"
  obtain s where s: "run_schedule [0, 0, 0, 0, 0, 1, 1, 1, 1, 1, 1] ?init = Some s"
    "results s 0 = [Found (Some 0)]" "data s = []"
    by (simp add: shared_init_def lock_init_def node_program_def guarded_call_def acquire_def
        release_def shared_move_def lock_move_def node_bodies new_node_def)
  from run_schedule_reachable [OF s(1) shared_reachable.start] s(2,3) show ?thesis by blast
qed

end
