(* ===== verification/Server.thy ===== *)
theory Server
  imports Session_Loop Config_Loader Replication Cluster
begin

text \<open>
  \<open>Server\<close> (\<open>include/server.h\<close>, \<open>src/server.cpp\<close>) and the start of the program
  (\<open>src/main.cpp\<close>): the client acceptor, the optional replication and cluster managers, and
  how a configuration file turns into a running server. The lemmas: what a configuration
  starts, what \<open>stop\<close> stops, and what it does not.
\<close>

section \<open>State\<close>

record server =
  srv_port :: int
  acceptor_open :: bool
  accept_pending :: bool
  srv_net :: net
  replication_manager :: "replication option"
  srv_replication_enabled :: bool
  cluster_manager :: "cluster option"
  srv_clustering_enabled :: bool

text \<open>
  \<open>Server::Server(io_context, short port)\<close>: the \<open>int\<close> of the configuration becomes a \<open>short\<close>
  and then the \<open>unsigned short\<close> of the endpoint. Binding may throw (\<open>None\<close>).
\<close>

definition server_create :: "bool \<Rightarrow> int \<Rightarrow> world \<Rightarrow> server option" where
  "server_create can_bind p w =
     (if can_bind then Some
        \<lparr>srv_port = to_port (wrap16 p), acceptor_open = True, accept_pending = False,
         srv_net = net_init w, replication_manager = None, srv_replication_enabled = False,
         cluster_manager = None, srv_clustering_enabled = False\<rparr>
      else None)"

section \<open>Operations\<close>

definition do_accept :: "server \<Rightarrow> server" where
  "do_accept s = s\<lparr>accept_pending := True\<rparr>"

definition server_start :: "server \<Rightarrow> server" where
  "server_start s = do_accept s"

text \<open>The completion handler of \<open>async_accept\<close>: \<open>ok\<close> is \<open>!ec\<close>.\<close>

definition on_accept :: "bool \<Rightarrow> server \<Rightarrow> server" where
  "on_accept ok s =
     (let s = s\<lparr>accept_pending := False\<rparr>;
          s = (if ok then s\<lparr>srv_net := net_accept (srv_net s)\<rparr> else s)
      in do_accept s)"

definition stop_by_role :: "replication \<Rightarrow> replication" where
  "stop_by_role r = (case get_manager_role r of MASTER \<Rightarrow> stop_master r | SLAVE \<Rightarrow> stop_slave r)"

definition server_stop :: "server \<Rightarrow> server" where
  "server_stop s = s\<lparr>acceptor_open := False,
     replication_manager := map_option stop_by_role (replication_manager s),
     cluster_manager := map_option (\<lambda>c. stop_node_discovery (stop_cluster c)) (cluster_manager s)\<rparr>"

definition enable_replication ::
  "nat \<Rightarrow> launch \<Rightarrow> replication_role \<Rightarrow> string \<Rightarrow> int \<Rightarrow> server \<Rightarrow> server" where
  "enable_replication hw l r h p s =
     (let m = (case replication_manager s of
             None \<Rightarrow> replication_init r | Some m \<Rightarrow> set_role r m);
          m = (case r of MASTER \<Rightarrow> start_master hw l p m | SLAVE \<Rightarrow> start_slave l h p m)
      in s\<lparr>replication_manager := Some m, srv_replication_enabled := True\<rparr>)"

definition disable_replication :: "server \<Rightarrow> server" where
  "disable_replication s = s\<lparr>replication_manager := map_option stop_by_role (replication_manager s),
     srv_replication_enabled := False\<rparr>"

definition enable_clustering :: "nat \<Rightarrow> launch \<Rightarrow> int \<Rightarrow> server \<Rightarrow> server" where
  "enable_clustering hw l p s =
     (let c = (case cluster_manager s of None \<Rightarrow> cluster_init | Some c \<Rightarrow> c) in
      s\<lparr>cluster_manager := Some (start_node_discovery (start_cluster hw l p c)),
        srv_clustering_enabled := True\<rparr>)"

definition disable_clustering :: "server \<Rightarrow> server" where
  "disable_clustering s =
     s\<lparr>cluster_manager := map_option (\<lambda>c. stop_node_discovery (stop_cluster c)) (cluster_manager s),
       srv_clustering_enabled := False\<rparr>"

definition add_server_node :: "string \<Rightarrow> int \<Rightarrow> bool \<Rightarrow> server \<Rightarrow> server" where
  "add_server_node h p m s = s\<lparr>cluster_manager := map_option (add_node h p m) (cluster_manager s)\<rparr>"

definition remove_server_node :: "string \<Rightarrow> int \<Rightarrow> server \<Rightarrow> server" where
  "remove_server_node h p s = s\<lparr>cluster_manager := map_option (remove_node h p) (cluster_manager s)\<rparr>"

section \<open>\<open>main\<close>\<close>

text \<open>
  The part of \<open>main\<close> before the threads: \<open>file\<close> is the text of \<open>redicraft.conf\<close>, \<open>l_repl\<close>
  and \<open>l_cluster\<close> say how the two services start.
\<close>

definition configure_replication :: "nat \<Rightarrow> launch \<Rightarrow> config \<Rightarrow> server \<Rightarrow> server" where
  "configure_replication hw l c s =
     (if is_replication_enabled c then
        if get_replication_role c = ''master'' then enable_replication hw l MASTER [] (get_replication_port c) s
        else if get_replication_role c = ''slave'' then
          enable_replication hw l SLAVE (get_master_host c) (get_master_port c) s
        else s
      else s)"

definition configure_cluster :: "nat \<Rightarrow> launch \<Rightarrow> config \<Rightarrow> server \<Rightarrow> server" where
  "configure_cluster hw l c s =
     (if is_clustering_enabled c then
        fold (\<lambda>n. add_server_node (node_host n) (node_port n) (node_is_master n)) (get_config_nodes c)
          (enable_clustering hw l (get_cluster_port c) s)
      else s)"

definition main_start ::
  "nat \<Rightarrow> string option \<Rightarrow> bool \<Rightarrow> launch \<Rightarrow> launch \<Rightarrow> world \<Rightarrow> server option" where
  "main_start hw file can_bind l_repl l_cluster w =
     (let c = snd (load file config_init) in
      map_option (\<lambda>s. server_start (configure_cluster hw l_cluster c (configure_replication hw l_repl c s)))
        (server_create can_bind (get_port c) w))"

text \<open>
  All of \<open>main\<close>: an exception during the start ends the program with the exit code 0; otherwise
  \<open>k\<close> threads run the handlers of the server (theory \<open>Program\<close>), for ever, since the work guard
  keeps the \<open>io_context\<close> busy and nothing stops it.
\<close>

datatype main_result = Returns int | Runs server nat

definition main_program ::
  "nat \<Rightarrow> string option \<Rightarrow> bool \<Rightarrow> launch \<Rightarrow> launch \<Rightarrow> world \<Rightarrow> main_result" where
  "main_program hw file can_bind l_repl l_cluster w =
     (case main_start hw file can_bind l_repl l_cluster w of
        None \<Rightarrow> Returns 0
      | Some s \<Rightarrow> Runs s (thread_count 4 hw))"

lemma main_program_Runs:
  "main_program hw file can_bind l_repl l_cluster w = Runs s k \<longleftrightarrow>
     main_start hw file can_bind l_repl l_cluster w = Some s \<and> k = thread_count 4 hw"
  by (auto simp: main_program_def split: option.splits)

section \<open>What a configuration starts\<close>

lemma to_port_wrap16: "to_port (wrap16 p) = p mod 2 ^ 16"
proof -
  have "(((p + 2 ^ 15) mod 2 ^ 16) - 2 ^ 15) mod 2 ^ 16 = (p + 2 ^ 15 - 2 ^ 15) mod (2 ^ 16 :: int)"
    by (rule mod_diff_left_eq)
  then show ?thesis by (simp add: to_port_def wrap16_def)
qed

lemma load_init_nodes: "cluster_nodes (snd (load file config_init)) = []"
proof -
  have "cluster_nodes (snd (load file config_init)) = cluster_nodes config_init"
    by (simp add: load_def load_lines_cluster_nodes split: option.splits)
  then show ?thesis by (simp add: config_init_def)
qed

text \<open>What the two configuration steps do to each field of the server.\<close>

lemma role_start [simp]:
  "role (start_master hw l p m) = role m" "role (start_slave l h p m) = role m"
  by (simp_all add: start_master_def start_slave_def Let_def split: launch.splits)

lemma configure_replication_frame:
  "srv_port (configure_replication hw l c s) = srv_port s"
  "acceptor_open (configure_replication hw l c s) = acceptor_open s"
  "srv_net (configure_replication hw l c s) = srv_net s"
  "cluster_manager (configure_replication hw l c s) = cluster_manager s"
  "srv_clustering_enabled (configure_replication hw l c s) = srv_clustering_enabled s"
  by (simp_all add: configure_replication_def enable_replication_def Let_def)

definition configured_role :: "config \<Rightarrow> replication_role option" where
  "configured_role c = (if \<not> replication_enabled c then None
     else if replication_role c = ''master'' then Some MASTER
     else if replication_role c = ''slave'' then Some SLAVE else None)"

lemma configure_replication_role:
  assumes "replication_manager s = None" and "\<not> srv_replication_enabled s"
  shows "map_option role (replication_manager (configure_replication hw l c s)) = configured_role c"
    and "srv_replication_enabled (configure_replication hw l c s) \<longleftrightarrow>
      replication_manager (configure_replication hw l c s) \<noteq> None"
  using assms
  by (simp_all add: configure_replication_def configured_role_def enable_replication_def Let_def
      replication_init_def)

lemma configure_cluster_frame:
  assumes "cluster_nodes c = []"
  shows "srv_port (configure_cluster hw l c s) = srv_port s"
    "acceptor_open (configure_cluster hw l c s) = acceptor_open s"
    "srv_net (configure_cluster hw l c s) = srv_net s"
    "replication_manager (configure_cluster hw l c s) = replication_manager s"
    "srv_replication_enabled (configure_cluster hw l c s) = srv_replication_enabled s"
  using assms by (simp_all add: configure_cluster_def enable_clustering_def Let_def)

lemma nodes_start: "nodes (start_node_discovery (start_cluster hw l p cluster_init)) = []"
  by (simp add: start_node_discovery_def start_cluster_def cluster_init_def Let_def split: launch.splits)

lemma configure_cluster_manager:
  assumes "cluster_nodes c = []" and "cluster_manager s = None" and "\<not> srv_clustering_enabled s"
  shows "cluster_manager (configure_cluster hw l c s) = (if clustering_enabled c then
      Some (start_node_discovery (start_cluster hw l (cluster_port c) cluster_init)) else None)"
    and "srv_clustering_enabled (configure_cluster hw l c s) = clustering_enabled c"
  using assms by (simp_all add: configure_cluster_def enable_clustering_def Let_def)

lemmas configure_simps = configure_replication_frame configure_replication_role
  configure_cluster_frame configure_cluster_manager

text \<open>
  C37. Starting up: with \<open>c\<close> the defaults overridden by the file, the server listens on the
  port of \<open>c\<close> modulo 65536 over an empty network, has a replication manager exactly when
  replication is enabled with the role master or slave, in that role, has a cluster manager
  exactly when clustering is enabled, and that manager has no nodes, whatever the file says.
\<close>

theorem startup_follows_config:
  assumes "main_start hw file True l_repl l_cluster w = Some s" and "c = snd (load file config_init)"
  shows "srv_port s = port c mod 65536 \<and> acceptor_open s \<and> accept_pending s \<and> srv_net s = net_init w
    \<and> map_option role (replication_manager s) =
        (if \<not> replication_enabled c then None
         else if replication_role c = ''master'' then Some MASTER
         else if replication_role c = ''slave'' then Some SLAVE else None)
    \<and> (srv_replication_enabled s \<longleftrightarrow> replication_manager s \<noteq> None)
    \<and> (cluster_manager s \<noteq> None \<longleftrightarrow> clustering_enabled c)
    \<and> (srv_clustering_enabled s \<longleftrightarrow> clustering_enabled c)
    \<and> (\<forall>m. cluster_manager s = Some m \<longrightarrow> nodes m = [])"
proof -
  have none: "cluster_nodes c = []" using assms(2) load_init_nodes by simp
  let ?s0 = "\<lparr>srv_port = to_port (wrap16 (port c)), acceptor_open = True, accept_pending = False,
         srv_net = net_init w, replication_manager = None, srv_replication_enabled = False,
         cluster_manager = None, srv_clustering_enabled = False\<rparr>"
  have "s = (configure_cluster hw l_cluster c (configure_replication hw l_repl c ?s0))\<lparr>accept_pending := True\<rparr>"
    using assms by (simp add: main_start_def server_create_def server_start_def do_accept_def Let_def)
  moreover have "replication_manager ?s0 = None" "\<not> srv_replication_enabled ?s0"
    "cluster_manager ?s0 = None" "\<not> srv_clustering_enabled ?s0" by simp_all
  note configure_replication_role [OF this(1,2), of hw l_repl c, unfolded configured_role_def]
  ultimately show ?thesis
    by (simp add: configure_replication_frame configure_cluster_frame [OF none]
        configure_cluster_manager [OF none] to_port_wrap16 nodes_start)
qed

theorem startup_follows_config_witness:
  "srv_port (the (main_start 4 (Some ''port=70000'') True Bind_fails Bind_fails (storage_init (\<lambda>n. 7) rev))) = 4464"
proof -
  have "\<exists>s. main_start 4 (Some ''port=70000'') True Bind_fails Bind_fails (storage_init (\<lambda>n. 7) rev) = Some s"
    by (simp add: main_start_def server_create_def Let_def)
  then obtain s where s: "main_start 4 (Some ''port=70000'') True Bind_fails Bind_fails (storage_init (\<lambda>n. 7) rev) = Some s" ..
  have "fits32 (port config_init)" by (simp add: config_init_def fits32_def)
  have "port (snd (load (Some ''port=70000'') config_init)) = 70000" by code_simp
  with startup_follows_config [OF s refl] show ?thesis by (simp add: s)
qed

section \<open>What \<open>stop\<close> stops\<close>

datatype server_op =
    Enable_replication launch replication_role string int
  | Disable_replication
  | Enable_clustering launch int
  | Disable_clustering
  | Add_cluster_node string int bool
  | Remove_cluster_node string int
  | Accept_completes bool

primrec server_do :: "nat \<Rightarrow> server_op \<Rightarrow> server \<Rightarrow> server" where
  "server_do hw (Enable_replication l r h p) s = enable_replication hw l r h p s"
| "server_do hw Disable_replication s = disable_replication s"
| "server_do hw (Enable_clustering l p) s = enable_clustering hw l p s"
| "server_do hw Disable_clustering s = disable_clustering s"
| "server_do hw (Add_cluster_node h p m) s = add_server_node h p m s"
| "server_do hw (Remove_cluster_node h p) s = remove_server_node h p s"
| "server_do hw (Accept_completes ok) s = on_accept ok s"

primrec server_run :: "nat \<Rightarrow> server_op list \<Rightarrow> server \<Rightarrow> server" where
  "server_run hw [] s = s"
| "server_run hw (x # xs) s = server_run hw xs (server_do hw x s)"

text \<open>A start either fails to bind or creates all its threads; replication keeps one role.\<close>

definition launch_ok :: "nat \<Rightarrow> launch \<Rightarrow> bool" where
  "launch_ok hw l \<longleftrightarrow> (case l of Bind_fails \<Rightarrow> True | Spawns n \<Rightarrow> 1 + thread_count 4 hw \<le> n)"

definition op_ok :: "nat \<Rightarrow> replication_role \<Rightarrow> server_op \<Rightarrow> bool" where
  "op_ok hw r x \<longleftrightarrow> (case x of
     Enable_replication l r' _ _ \<Rightarrow> launch_ok hw l \<and> r' = r
   | Enable_clustering l _ \<Rightarrow> launch_ok hw l
   | _ \<Rightarrow> True)"

definition replication_stopped :: "replication \<Rightarrow> bool" where
  "replication_stopped m \<longleftrightarrow> \<not> master_running m \<and> master_threads m = 0
     \<and> \<not> slave_connected m \<and> slave_threads m = 0"

definition cluster_stopped :: "cluster \<Rightarrow> bool" where
  "cluster_stopped c \<longleftrightarrow> \<not> cluster_running c \<and> cluster_threads c = 0
     \<and> \<not> discovery_running c \<and> discovery_threads c = 0"

definition replication_ok :: "replication_role \<Rightarrow> replication \<Rightarrow> bool" where
  "replication_ok r m \<longleftrightarrow> role m = r \<and> master.clean m \<and> slave.clean m
     \<and> (r \<noteq> MASTER \<longrightarrow> master.idle m) \<and> (r \<noteq> SLAVE \<longrightarrow> slave.idle m)"

definition cluster_ok :: "cluster \<Rightarrow> bool" where
  "cluster_ok c \<longleftrightarrow> listener.clean c \<and> discovery.clean c"

definition server_ok :: "replication_role \<Rightarrow> server \<Rightarrow> bool" where
  "server_ok r s \<longleftrightarrow> (\<forall>m. replication_manager s = Some m \<longrightarrow> replication_ok r m)
     \<and> (\<forall>c. cluster_manager s = Some c \<longrightarrow> cluster_ok c)"

lemmas service_defs = master.clean_def master.idle_def slave.clean_def slave.idle_def
  listener.clean_def listener.idle_def discovery.clean_def discovery.idle_def

lemma replication_ok_init: "replication_ok r (replication_init r)"
  by (simp add: replication_ok_def service_defs replication_init_def)

lemma replication_ok_start:
  assumes "replication_ok r m" and "launch_ok hw l"
  shows "replication_ok r (case r of MASTER \<Rightarrow> start_master hw l p (set_role r m)
    | SLAVE \<Rightarrow> start_slave l h p (set_role r m))"
  using assms
  by (auto simp: replication_ok_def service_defs set_role_def launch_ok_def start_master_def
      start_slave_def Let_def split: replication_role.splits launch.splits)

lemma set_role_same: "set_role r (replication_init r) = replication_init r"
  by (simp add: set_role_def replication_init_def)

lemma stop_by_role_stopped: "replication_ok r m \<Longrightarrow> replication_stopped (stop_by_role m)"
  by (auto simp: replication_ok_def service_defs stop_by_role_def get_manager_role_def replication_stopped_def
      stop_master_def stop_slave_def split: replication_role.splits)

lemma stop_by_role_ok: "replication_ok r m \<Longrightarrow> replication_ok r (stop_by_role m)"
  by (auto simp: replication_ok_def service_defs stop_by_role_def get_manager_role_def stop_master_def stop_slave_def
      split: replication_role.splits)

lemma cluster_ok_init: "cluster_ok cluster_init"
  by (simp add: cluster_ok_def service_defs cluster_init_def)

lemma cluster_ok_start:
  "cluster_ok c \<Longrightarrow> launch_ok hw l \<Longrightarrow> cluster_ok (start_node_discovery (start_cluster hw l p c))"
  by (auto simp: cluster_ok_def service_defs launch_ok_def start_cluster_def start_node_discovery_def
      Let_def split: launch.splits)

lemma cluster_stop_stopped: "cluster_ok c \<Longrightarrow> cluster_stopped (stop_node_discovery (stop_cluster c))"
  by (auto simp: cluster_ok_def service_defs cluster_stopped_def stop_cluster_def stop_node_discovery_def)

lemma cluster_ok_stop: "cluster_ok c \<Longrightarrow> cluster_ok (stop_node_discovery (stop_cluster c))"
  by (auto simp: cluster_ok_def service_defs stop_cluster_def stop_node_discovery_def)

lemma cluster_ok_nodes: "cluster_ok (add_node h p m c) = cluster_ok c" "cluster_ok (remove_node h p c) = cluster_ok c"
  by (simp_all add: cluster_ok_def service_defs add_node_def remove_node_def)

lemma enable_replication_ok:
  assumes "server_ok r s" and "launch_ok hw l"
  shows "server_ok r (enable_replication hw l r h p s)"
proof (cases "replication_manager s")
  case None
  with assms replication_ok_start [OF replication_ok_init assms(2), unfolded set_role_same] show ?thesis
    by (simp add: server_ok_def enable_replication_def Let_def)
next
  case (Some m)
  with assms have "replication_ok r m" by (simp add: server_ok_def)
  from replication_ok_start [OF this assms(2)] Some assms show ?thesis
    by (simp add: server_ok_def enable_replication_def Let_def)
qed

lemma enable_clustering_ok:
  assumes "server_ok r s" and "launch_ok hw l"
  shows "server_ok r (enable_clustering hw l p s)"
  using assms cluster_ok_init
  by (auto simp: server_ok_def enable_clustering_def Let_def intro: cluster_ok_start split: option.splits)

lemma server_do_ok:
  assumes "server_ok r s" and "op_ok hw r x"
  shows "server_ok r (server_do hw x s)"
proof (cases x)
  case (Enable_replication l r' h p)
  with assms show ?thesis by (simp add: op_ok_def enable_replication_ok)
next
  case (Enable_clustering l p)
  with assms show ?thesis by (simp add: op_ok_def enable_clustering_ok)
qed (use assms(1) in \<open>auto simp: server_ok_def disable_replication_def disable_clustering_def
    add_server_node_def remove_server_node_def on_accept_def do_accept_def Let_def
    stop_by_role_ok cluster_ok_stop cluster_ok_nodes\<close>)

lemma server_run_ok:
  "server_ok r s \<Longrightarrow> \<forall>x \<in> set xs. op_ok hw r x \<Longrightarrow> server_ok r (server_run hw xs s)"
  by (induction xs arbitrary: s) (auto intro: server_do_ok)

lemma server_create_ok: "server_create b p w = Some s \<Longrightarrow> server_ok r s"
  by (auto simp: server_create_def server_ok_def split: if_splits)

text \<open>
  C38. Stopping: after any sequence of operations in which replication is always enabled in the
  same role and every start of a service either fails to bind its port or creates all its
  threads (\<open>launch_ok\<close>; otherwise see \<open>failed_start_leaks\<close>), \<open>stop\<close> closes the client acceptor and leaves no
  service running and no thread to join, in the replication manager and in the cluster
  manager. The pending accept is still there, and a failed accept starts the next one.
\<close>

theorem stop_leaves_nothing_running:
  assumes "server_create can_bind p w = Some s0" and "\<forall>x \<in> set xs. op_ok hw r x"
    and "s = server_stop (server_run hw xs (server_start s0))"
  shows "\<not> acceptor_open s
    \<and> (\<forall>m. replication_manager s = Some m \<longrightarrow> replication_stopped m)
    \<and> (\<forall>c. cluster_manager s = Some c \<longrightarrow> cluster_stopped c)
    \<and> on_accept False s = s\<lparr>accept_pending := True\<rparr>"
proof -
  have "server_ok r (server_start s0)"
    using server_create_ok [OF assms(1), of r] by (simp add: server_start_def do_accept_def server_ok_def)
  then have "server_ok r (server_run hw xs (server_start s0))"
    using assms(2) by (rule server_run_ok)
  then show ?thesis
    by (auto simp: assms(3) server_stop_def server_ok_def on_accept_def do_accept_def Let_def
        intro: stop_by_role_stopped cluster_stop_stopped)
qed

theorem stop_leaves_nothing_running_witness:
  "replication_stopped (the (replication_manager (server_stop (server_run 4
     [Enable_replication (Spawns 5) MASTER [] 7380, Accept_completes True, Enable_clustering Bind_fails 7381]
     (server_start (the (server_create True 7379 (storage_init (\<lambda>n. 7) rev))))))))"
proof -
  let ?xs = "[Enable_replication (Spawns 5) MASTER [] 7380, Accept_completes True, Enable_clustering Bind_fails 7381]"
  obtain s0 where s0: "server_create True 7379 (storage_init (\<lambda>n. 7) rev) = Some s0" by (simp add: server_create_def)
  have "\<forall>x \<in> set ?xs. op_ok 4 MASTER x" by (simp add: op_ok_def launch_ok_def thread_count_def)
  note stop_leaves_nothing_running [OF s0 this refl]
  moreover have "replication_manager (server_stop (server_run 4 ?xs (server_start s0))) \<noteq> None"
    by (simp add: server_stop_def enable_replication_def enable_clustering_def on_accept_def do_accept_def Let_def)
  ultimately show ?thesis by (auto simp: s0)
qed

text \<open>
  A role change leaks: a server that was enabled as a master and then as a slave keeps its
  replication master listening, with all its threads, after \<open>disableReplication\<close> and after
  \<open>stop\<close>, because both look only at the present role.
\<close>

lemma role_change_leaks_master:
  assumes "1 + thread_count 4 hw \<le> n" and "replication_manager s = None"
  shows "let s' = enable_replication hw l SLAVE h p2 (enable_replication hw (Spawns n) MASTER [] p1 s) in
      \<forall>t \<in> {disable_replication s', server_stop s', server_stop (disable_replication s')}.
        master_running (the (replication_manager t))
      \<and> master_threads (the (replication_manager t)) = 1 + thread_count 4 hw
      \<and> master_listening (the (replication_manager t)) = Some (to_port p1)"
  using assms
  by (simp add: enable_replication_def disable_replication_def server_stop_def stop_by_role_def get_manager_role_def
      set_role_def start_master_def start_slave_def stop_slave_def replication_init_def Let_def
      split: launch.splits)

end
