(* ===== verification/Program.thy ===== *)
theory Program
  imports Server
begin

text \<open>
  The running program: the server that \<open>main\<close> has started, with its acceptor, its clients'
  sessions and the operations of its interface, as one step relation. \<open>main\<close> runs the handlers
  on several threads, so between two steps of a session the store may become whatever the
  handlers of other sessions make of it. The theorem is about what holds all the same in
  every state the program can reach from any configuration file: every connection gets its
  own responses, in order, and accepting never ends.
\<close>

section \<open>Steps\<close>

text \<open>
  A completed accept needs an open acceptor, a failed one does not. A session step is a step of
  the network that accepts no connection. The operations of the interface do not include
  the completion of an accept. \<open>others\<close>: the handlers of other sessions have changed the
  store, to any that holds only texts without line breaks.
\<close>

definition session_step :: "net \<Rightarrow> net \<Rightarrow> bool" where
  "session_step n n' \<longleftrightarrow> net_step n n' \<and> accepted n' = accepted n"

inductive server_step :: "nat \<Rightarrow> server \<Rightarrow> server \<Rightarrow> bool" for hw where
  accept: "accept_pending s \<Longrightarrow> acceptor_open s \<Longrightarrow> server_step hw s (on_accept True s)"
| accept_failed: "accept_pending s \<Longrightarrow> server_step hw s (on_accept False s)"
| session: "session_step (srv_net s) n \<Longrightarrow> server_step hw s (s\<lparr>srv_net := n\<rparr>)"
| operation: "x \<noteq> Accept_completes True \<Longrightarrow> x \<noteq> Accept_completes False \<Longrightarrow>
    server_step hw s (server_do hw x s)"
| stop: "server_step hw s (server_stop s)"
| others: "store_clean w \<Longrightarrow> enumerates (iter_order w) \<Longrightarrow>
    server_step hw s (s\<lparr>srv_net := (srv_net s)\<lparr>store := w\<rparr>\<rparr>)"

inductive server_reachable :: "nat \<Rightarrow> server \<Rightarrow> server \<Rightarrow> bool" for hw s0 where
  start: "server_reachable hw s0 s0"
| step: "server_reachable hw s0 s \<Longrightarrow> server_step hw s s' \<Longrightarrow> server_reachable hw s0 s'"

inductive_cases server_stepE: "server_step hw s s'"

section \<open>What every step keeps\<close>

lemma operation_frame:
  "x \<noteq> Accept_completes True \<Longrightarrow> x \<noteq> Accept_completes False \<Longrightarrow>
     srv_net (server_do hw x s) = srv_net s \<and> srv_port (server_do hw x s) = srv_port s
     \<and> accept_pending (server_do hw x s) = accept_pending s"
  by (cases x)
    (simp_all add: enable_replication_def disable_replication_def enable_clustering_def
      disable_clustering_def add_server_node_def remove_server_node_def Let_def)

text \<open>
  A session has been sent its responses but for the one it may still be writing; every response
  is the answer of \<open>handle_command\<close> to its own command on some store.
\<close>

definition reply_to :: "string \<Rightarrow> string \<Rightarrow> bool" where
  "reply_to i r \<longleftrightarrow> (\<exists>w. store_clean w \<and> enumerates (iter_order w) \<and> r = fst (run_state (handle_command i) w))"

definition orderly :: "net \<Rightarrow> bool" where
  "orderly n \<longleftrightarrow>
     (\<forall>c s. sessions n c = Some s \<longrightarrow> responses_of c (history n) = sent n c @ pending s)
   \<and> (\<forall>c. \<exists>rs. length rs \<le> 1 \<and> responses_of c (history n) = sent n c @ rs)
   \<and> (\<forall>c. accepted n \<le> c \<longrightarrow> sessions n c = None \<and> sent n c = [] \<and> responses_of c (history n) = [])
   \<and> (\<forall>(c, i, r) \<in> set (history n). reply_to i r)
   \<and> store_clean (store n) \<and> enumerates (iter_order (store n))"

lemma reply_to_framed: "reply_to i r \<Longrightarrow> framed r"
  by (auto simp: reply_to_def handle_command_def response_framed)

lemma orderly_read:
  assumes "orderly n" and s: "sessions n c = Some s" "phase s = Reading"
  shows "orderly (net_read c bytes s n)"
proof -
  let ?run = "run_state (handle_command (chunk_command bytes)) (store n)"
  have n': "net_read c bytes s n = n\<lparr>store := snd ?run,
      sessions := (sessions n)(c \<mapsto> s\<lparr>response := fst ?run, phase := Writing\<rparr>),
      history := history n @ [(c, chunk_command bytes, fst ?run)]\<rparr>"
    by (simp add: net_read_def run_on_read case_prod_beta' Let_def)
  have "responses_of c (history n) = sent n c @ pending s" using assms(1) s(1) by (simp add: orderly_def)
  then have c: "responses_of c (history n) = sent n c" using s(2) by (simp add: pending_def)
  have new: "c < accepted n" using assms(1) s(1) by (force simp: orderly_def not_le [symmetric])
  have "reply_to (chunk_command bytes) (fst ?run)" "store_clean (snd ?run)" "enumerates (iter_order (snd ?run))"
    using assms(1) by (auto simp: orderly_def reply_to_def store_clean_handle handle_iter_order)
  then show ?thesis
    using assms(1) c new unfolding n' orderly_def by (auto split: if_splits)
qed

lemma orderly_written:
  assumes "orderly n" and s: "sessions n c = Some s" "phase s = Writing"
  shows "orderly (net_written c s n)"
proof -
  have "responses_of c (history n) = sent n c @ pending s" using assms(1) s(1) by (simp add: orderly_def)
  then have c: "responses_of c (history n) = sent n c @ [response s]" using s(2) by (simp add: pending_def)
  have "c < accepted n" using assms(1) s(1) by (force simp: orderly_def not_le [symmetric])
  with c show ?thesis
    using assms(1) unfolding net_written_def orderly_def by (auto split: if_splits)
qed

lemma orderly_accept: "orderly n \<Longrightarrow> orderly (net_accept n)"
  unfolding orderly_def net_accept_def by (auto simp: session_start_def pending_def split: if_splits)

lemma orderly_closed: "orderly n \<Longrightarrow> orderly (net_closed c n)"
  unfolding orderly_def net_closed_def by (auto split: if_splits)

lemma orderly_step: "net_step n n' \<Longrightarrow> orderly n \<Longrightarrow> orderly n'"
  by (erule net_stepE) (simp_all add: orderly_accept orderly_read orderly_written orderly_closed)

text \<open>The server, listening on \<open>p\<close>.\<close>

definition running_ok :: "int \<Rightarrow> server \<Rightarrow> bool" where
  "running_ok p s \<longleftrightarrow> orderly (srv_net s) \<and> accept_pending s \<and> srv_port s = p"

lemma running_ok_step:
  assumes "server_step hw s s'" and "running_ok p s"
  shows "running_ok p s'"
  using assms(1)
proof (cases rule: server_step.cases)
  case accept
  have "net_step (srv_net s) (net_accept (srv_net s))" by (rule net_step.accept)
  with accept assms(2) show ?thesis
    by (simp add: running_ok_def on_accept_def do_accept_def orderly_step Let_def)
next
  case accept_failed
  with assms(2) show ?thesis by (simp add: running_ok_def on_accept_def do_accept_def Let_def)
next
  case (session n)
  with assms(2) show ?thesis
    by (auto simp: running_ok_def session_step_def intro: orderly_step)
next
  case (operation x)
  with assms(2) operation_frame [of x hw s] show ?thesis by (simp add: running_ok_def)
next
  case stop
  with assms(2) show ?thesis by (simp add: running_ok_def server_stop_def)
next
  case (others w)
  with assms(2) show ?thesis by (simp add: running_ok_def orderly_def)
qed

lemma running_ok_reachable: "server_reachable hw s0 s \<Longrightarrow> running_ok p s0 \<Longrightarrow> running_ok p s"
  by (induction rule: server_reachable.induct) (auto intro: running_ok_step)

lemma startup_facts:
  assumes "main_start hw file can_bind l_repl l_cluster w = Some s"
  shows "accept_pending s" and "acceptor_open s" and "srv_net s = net_init w"
proof -
  have "cluster_nodes (snd (load file config_init)) = []" by (rule load_init_nodes)
  note frame = configure_replication_frame configure_cluster_frame [OF this]
  show "accept_pending s" "acceptor_open s" "srv_net s = net_init w"
    using assms
    by (auto simp: main_start_def Let_def server_start_def do_accept_def server_create_def frame
        split: if_splits)
qed

section \<open>The responses of a run\<close>

text \<open>
  C27. The running program: from any configuration file, in every state a server can reach
  through its acceptor, its clients, any operations of its interface, and handlers of other
  sessions that change the store between its steps in any way (to any store of texts without
  line breaks): each response is the answer of \<open>handle_command\<close> to its own command on some
  such store, and well framed; each connection has been sent the responses to its own
  commands, in order, with at most the last one missing; an accept is pending, on the port
  the server started with, also after \<open>stop\<close>; and there is a thread to run the handlers.
  Nothing is claimed about the order of commands of different sessions.
\<close>

theorem program_answers_in_order:
  assumes "main_program hw file can_bind l_repl l_cluster (storage_init clk ord) = Runs s0 k"
    and "server_reachable hw s0 s" and "enumerates ord"
  shows "(\<forall>c. \<exists>rs. length rs \<le> 1 \<and> responses_of c (history (srv_net s)) = sent (srv_net s) c @ rs)
    \<and> (\<forall>(c, i, r) \<in> set (history (srv_net s)). reply_to i r \<and> framed r)
    \<and> accept_pending s \<and> srv_port s = srv_port s0 \<and> 0 < k"
proof -
  have start: "main_start hw file can_bind l_repl l_cluster (storage_init clk ord) = Some s0"
    and k: "0 < k" using assms(1) by (auto simp: main_program_Runs thread_count_def)
  have "orderly (net_init (storage_init clk ord))"
    using assms(3) by (simp add: orderly_def net_init_def responses_of_def)
  then have "running_ok (srv_port s0) s0"
    using startup_facts [OF start] by (simp add: running_ok_def)
  with assms(2) have "running_ok (srv_port s0) s" by (rule running_ok_reachable)
  then show ?thesis
    using k reply_to_framed by (fastforce simp: running_ok_def orderly_def)
qed

text \<open>A client that connects and sends \<open>PING\<close>.\<close>

theorem program_answers_in_order_witness:
  "let s0 = the (main_start 4 None True Bind_fails Bind_fails (storage_init (\<lambda>n. 7) rev));
       s1 = on_accept True s0;
       s2 = s1\<lparr>srv_net := net_read 0 ''PING'' session_start (srv_net s1)\<rparr>
   in accept_pending s2 \<and> srv_port s2 = srv_port s0
    \<and> framed (snd (snd (hd (history (srv_net s2)))))"
proof -
  let ?w = "storage_init (\<lambda>n. 7) rev"
  obtain s0 where s0: "main_start 4 None True Bind_fails Bind_fails ?w = Some s0"
    by (simp add: main_start_def server_create_def Let_def)
  let ?s1 = "on_accept True s0"
  let ?s2 = "?s1\<lparr>srv_net := net_read 0 ''PING'' session_start (srv_net ?s1)\<rparr>"
  note main = startup_facts [OF s0]
  have "server_step 4 s0 ?s1" using main by (intro server_step.accept)
  moreover have "net_step (srv_net ?s1) (net_read 0 ''PING'' session_start (srv_net ?s1))"
    by (rule net_step.read)
      (simp_all add: main on_accept_def do_accept_def net_accept_def net_init_def session_start_def
        read_limit_def Let_def)
  then have "session_step (srv_net ?s1) (net_read 0 ''PING'' session_start (srv_net ?s1))"
    by (simp add: session_step_def net_read_def case_prod_beta' Let_def)
  then have "server_step 4 ?s1 ?s2" by (rule server_step.session)
  ultimately have "server_reachable 4 s0 ?s2"
    by (rule server_reachable.step [OF server_reachable.step [OF server_reachable.start]])
  moreover have "main_program 4 None True Bind_fails Bind_fails ?w = Runs s0 4"
    by (simp add: main_program_Runs s0 thread_count_def)
  moreover have "hd (history (srv_net ?s2)) \<in> set (history (srv_net ?s2))"
    by (rule hd_in_set) (simp add: net_read_def case_prod_beta' Let_def)
  ultimately show ?thesis
    using program_answers_in_order [of 4 None True Bind_fails Bind_fails "\<lambda>n. 7" rev s0 4 ?s2]
    by (simp add: s0 Let_def case_prod_beta')
qed

end
