(* ===== verification/Benchmark.thy ===== *)
theory Benchmark
  imports Storage_Sets
begin

text \<open>
  \<open>src/benchmark.cpp\<close>: the three loops of the benchmark program on a storage of its own. The
  random numbers it draws are the lists \<open>sets\<close>, \<open>gets\<close> and \<open>incrs\<close>; the times it measures
  and prints are left out. The lemmas: its hit rate counts exactly the keys that were set,
  and its counters count exactly.
\<close>

definition num_operations :: nat where
  "num_operations = 100000"

definition bench_key :: "int \<Rightarrow> string" where
  "bench_key n = ''key:'' @ to_string n"

definition counter_key :: "int \<Rightarrow> string" where
  "counter_key n = ''counter:'' @ to_string n"

primrec bench_set :: "(int \<times> int) list \<Rightarrow> unit act" where
  "bench_set [] = State_Monad.return ()"
| "bench_set (kv # kvs) = do {
     _ \<leftarrow> storage_set (bench_key (fst kv)) (to_string (snd kv));
     bench_set kvs
   }"

primrec bench_get :: "int list \<Rightarrow> nat \<Rightarrow> nat act" where
  "bench_get [] hits = State_Monad.return hits"
| "bench_get (k # ks) hits = do {
     v \<leftarrow> storage_get (bench_key k);
     bench_get ks (if v \<noteq> None then hits + 1 else hits)
   }"

primrec bench_incr :: "int list \<Rightarrow> unit act" where
  "bench_incr [] = State_Monad.return ()"
| "bench_incr (k # ks) = do {
     _ \<leftarrow> storage_incr (counter_key k);
     bench_incr ks
   }"

definition bench_main :: "(int \<times> int) list \<Rightarrow> int list \<Rightarrow> int list \<Rightarrow> nat act" where
  "bench_main sets gets incrs = do {
     bench_set sets;
     hits \<leftarrow> bench_get gets 0;
     bench_incr incrs;
     State_Monad.return hits
   }"

section \<open>Strings without expiry\<close>

definition no_expiry :: "world \<Rightarrow> bool" where
  "no_expiry w \<longleftrightarrow> (\<forall>k item. umap_find k (string_data w) = Some item \<longrightarrow> \<not> has_expiry item)"

lemma purge_no_expiry: "no_expiry w \<Longrightarrow> purge t key (string_data w) = string_data w"
  by (auto simp: no_expiry_def purge_def expired_at_def split: option.splits)

lemma bench_set_run:
  assumes "no_expiry w"
  shows "no_expiry (snd (run_state (bench_set kvs) w))
    \<and> (\<forall>key. umap_find key (string_data (snd (run_state (bench_set kvs) w))) \<noteq> None \<longleftrightarrow>
        umap_find key (string_data w) \<noteq> None \<or> key \<in> bench_key ` fst ` set kvs)"
  using assms
proof (induction kvs arbitrary: w)
  case (Cons kv kvs)
  let ?w = "snd (run_state (storage_set (bench_key (fst kv)) (to_string (snd kv))) w)"
  have data: "string_data ?w = umap_put (bench_key (fst kv)) (new_item (to_string (snd kv))) (string_data w)"
    using Cons.prems by (simp add: exec_simps purge_no_expiry)
  then have "no_expiry ?w"
    using Cons.prems by (auto simp: no_expiry_def um.find_put new_item_def split: if_splits)
  from Cons.IH [OF this] data show ?case
    by (auto simp: State_Monad.run_state_bind case_prod_beta' um.find_put)
qed simp

lemma bench_get_run:
  assumes "no_expiry w"
  shows "fst (run_state (bench_get ks n) w)
      = n + length (filter (\<lambda>k. umap_find (bench_key k) (string_data w) \<noteq> None) ks)
    \<and> string_data (snd (run_state (bench_get ks n) w)) = string_data w"
  using assms
proof (induction ks arbitrary: n w)
  case (Cons k ks)
  let ?w = "snd (run_state (storage_get (bench_key k)) w)"
  have data: "string_data ?w = string_data w"
    "fst (run_state (storage_get (bench_key k)) w) = map_option contents (umap_find (bench_key k) (string_data w))"
    using Cons.prems by (simp_all add: exec_simps purge_no_expiry)
  then have "no_expiry ?w" using Cons.prems by (simp add: no_expiry_def)
  from Cons.IH [OF this] data show ?case
    by (simp add: State_Monad.run_state_bind case_prod_beta')
qed simp

text \<open>The value a key counts: 0 when it is absent, \<open>n\<close> when it holds the decimal form of \<open>n\<close>.\<close>

definition counts_to :: "string \<Rightarrow> int \<Rightarrow> world \<Rightarrow> bool" where
  "counts_to key n w \<longleftrightarrow> (if n = 0 then umap_find key (string_data w) = None else counts key n w)"

lemma counts_to_incr:
  assumes "counts_to key n w" and "0 \<le> n" and "n < 2 ^ 63 - 1"
  shows "counts_to key (n + 1) (snd (run_state (storage_incr key) w))"
proof (cases "n = 0")
  case True
  with assms show ?thesis
    by (simp add: counts_to_def counts_def exec_simps counter_after_def counter_item_def
        counter_sum_def umap_find_purge new_item_def Let_def)
next
  case False
  have "run_state (storage_incr key) w = run_state (storage_incrby key 1) w"
    by (simp add: exec_simps fits64_def)
  moreover have "fits64 n" "fits64 1" "fits64 (n + 1)" using assms by (simp_all add: fits64_def)
  ultimately show ?thesis
    using False assms counts_incrby(1) [of key n w 1] by (simp add: counts_to_def perform.simps)
qed

lemma counts_to_other:
  assumes "counts_to key n w" and "key' \<noteq> key"
  shows "counts_to key n (snd (run_state (storage_incr key') w))"
proof -
  have "same_under key w (perform (Call_incr key') w)"
    using assms(2) by (intro perform_isolated) simp_all
  then show ?thesis
    using assms(1) by (auto simp: counts_to_def counts_def same_under_def perform.simps)
qed

lemma counter_key_inj: "counter_key m = counter_key n \<longleftrightarrow> m = n"
  by (auto simp: counter_key_def dest: to_string_inj)

lemma bench_incr_run:
  assumes "counts_to (counter_key k) n w" and "0 \<le> n" and "n + int (length ks) < 2 ^ 63 - 1"
  shows "counts_to (counter_key k) (n + int (count_list ks k)) (snd (run_state (bench_incr ks) w))"
  using assms
proof (induction ks arbitrary: n w)
  case (Cons k' ks)
  let ?w = "snd (run_state (storage_incr (counter_key k')) w)"
  show ?case
  proof (cases "k' = k")
    case True
    with Cons.prems have "counts_to (counter_key k) (n + 1) ?w" by (simp add: counts_to_incr)
    from Cons.IH [OF this] Cons.prems True show ?thesis
      by (simp add: State_Monad.run_state_bind case_prod_beta' add.assoc)
  next
    case False
    with Cons.prems have "counts_to (counter_key k) n ?w" by (simp add: counts_to_other counter_key_inj)
    from Cons.IH [OF this] Cons.prems False show ?thesis
      by (simp add: State_Monad.run_state_bind case_prod_beta')
  qed
qed simp

text \<open>
  C40. The benchmark measures what it says: its hits are the \<open>get\<close> operations whose key was set
  before, and afterwards every counter holds the number of times it was incremented and is
  absent when it never was.
\<close>

theorem benchmark_counts:
  assumes "length incrs \<le> num_operations"
  shows "let (hits, w') = run_state (bench_main sets gets incrs) (storage_init clk ord) in
      hits = length (filter (\<lambda>k. k \<in> fst ` set sets) gets)
    \<and> (\<forall>k. map_option contents (umap_find (counter_key k) (string_data w')) =
        (if k \<in> set incrs then Some (to_string (int (count_list incrs k))) else None))"
proof -
  let ?w0 = "storage_init clk ord"
  let ?w1 = "snd (run_state (bench_set sets) ?w0)"
  let ?w2 = "snd (run_state (bench_get gets 0) ?w1)"
  let ?w3 = "snd (run_state (bench_incr incrs) ?w2)"
  have "no_expiry ?w0" by (simp add: no_expiry_def storage_init_def um.find_empty)
  from bench_set_run [OF this, of sets] have ne: "no_expiry ?w1"
    and dom: "\<And>key. umap_find key (string_data ?w1) \<noteq> None \<longleftrightarrow> key \<in> bench_key ` fst ` set sets"
    by (simp_all add: storage_init_def um.find_empty)
  have "bench_key k \<in> bench_key ` fst ` set sets \<longleftrightarrow> k \<in> fst ` set sets" for k
    by (auto simp: bench_key_def dest: to_string_inj)
  with bench_get_run [OF ne, of gets 0] dom
  have hits: "fst (run_state (bench_get gets 0) ?w1) = length (filter (\<lambda>k. k \<in> fst ` set sets) gets)"
    and data: "string_data ?w2 = string_data ?w1" by simp_all
  have counter: "counts_to (counter_key k) (int (count_list incrs k)) ?w3" for k
  proof -
    have "counter_key k \<notin> bench_key ` fst ` set sets" by (auto simp: counter_key_def bench_key_def)
    then have "counts_to (counter_key k) 0 ?w2" using dom [of "counter_key k"] data by (simp add: counts_to_def del: not_None_eq)
    moreover have "int (length incrs) < 2 ^ 63 - 1" using assms by (simp add: num_operations_def)
    ultimately show ?thesis using bench_incr_run [of k 0 ?w2 incrs] by simp
  qed
  have "map_option contents (umap_find (counter_key k) (string_data ?w3)) =
      (if k \<in> set incrs then Some (to_string (int (count_list incrs k))) else None)" for k
    using counter [of k] by (auto simp: counts_to_def counts_def count_list_0_iff split: if_splits)
  with hits show ?thesis
    by (simp add: bench_main_def State_Monad.run_state_bind case_prod_beta' Let_def)
qed

theorem benchmark_counts_witness:
  "fst (run_state (bench_main [(1, 5), (2, 6)] [1, 3, 1] [4, 4]) (storage_init (\<lambda>n. 7) rev)) = 2"
  using benchmark_counts [of "[4, 4]" "[(1, 5), (2, 6)]" "[1, 3, 1]" "\<lambda>n. 7" rev]
  by (simp add: num_operations_def case_prod_beta' Let_def)

end
