(* ===== verification/Java_Client.thy ===== *)
theory Java_Client
  imports Session_Loop Storage_Local
begin

text \<open>
  The client library \<open>RedicraftClient\<close> (Java) on the other end of a session: each method
  prints one line, the server reads it in pieces of at most 1024 bytes and answers each piece,
  and the method reads one line back (\<open>hgetAll\<close> and \<open>smembers\<close>: lines until an empty one).
  The model is a client alone with its session and the store behind it, \<open>connection\<close>; the
  methods that complete a future do the same on another thread. The lemmas: the
  single-line methods answer what \<open>Storage\<close> answers and keep requests and responses in step;
  the two that read several lines never return from a non-empty collection; a request longer
  than one read of the server puts all later answers out of step.

  Characters stand for bytes: the charset both Java streams use is taken to be one-to-one on
  the texts sent. \<open>nl\<close> is the platform's line separator, which \<open>println\<close> appends.
\<close>

section \<open>Reading lines\<close>

text \<open>
  \<open>BufferedReader\<close>: the bytes received and not read yet, whether a line feed is skipped because
  the line before ended with a carriage return, and whether the server has closed.
\<close>

record reader =
  inbox :: string
  skip_lf :: bool
  closed :: bool

text \<open>\<open>End_of_stream\<close> is Java's \<open>null\<close>; \<open>Waits\<close>: the call has not returned yet.\<close>

datatype line_read = Line string | End_of_stream | Waits

definition line_break :: "char \<Rightarrow> bool" where
  "line_break c \<longleftrightarrow> c = newline \<or> c = carriage_return"

definition unskipped :: "reader \<Rightarrow> string" where
  "unskipped r = (if skip_lf r \<and> inbox r \<noteq> [] \<and> hd (inbox r) = newline then tl (inbox r) else inbox r)"

definition read_line :: "reader \<Rightarrow> line_read \<times> reader" where
  "read_line r = (let s = unskipped r; l = takeWhile (\<lambda>c. \<not> line_break c) s in
     case dropWhile (\<lambda>c. \<not> line_break c) s of
       c # rest \<Rightarrow> (Line l, r\<lparr>inbox := rest, skip_lf := (c = carriage_return)\<rparr>)
     | [] \<Rightarrow> if closed r then (if s = [] then End_of_stream else Line s, r\<lparr>inbox := [], skip_lf := False\<rparr>)
            else (Waits, r))"

lemma read_line_less: "read_line r = (Line l, r') \<Longrightarrow> length (inbox r') < length (inbox r)"
proof -
  assume *: "read_line r = (Line l, r')"
  have le: "length (unskipped r) \<le> length (inbox r)" by (simp add: unskipped_def)
  have dw: "length (dropWhile (\<lambda>c. \<not> line_break c) (unskipped r)) \<le> length (unskipped r)"
    by (rule length_dropWhile_le)
  show ?thesis
    using * le dw
    by (cases "dropWhile (\<lambda>c. \<not> line_break c) (unskipped r)")
      (auto simp: read_line_def Let_def split: if_splits)
qed

section \<open>The session behind the socket\<close>

record connection =
  reader :: reader
  remote :: world

text \<open>What reaches the server in one write is read in pieces of at most \<open>read_limit\<close> bytes.\<close>

function packets :: "string \<Rightarrow> string list" where
  "packets s = (if s = [] then [] else take read_limit s # packets (drop read_limit s))"
  by pat_completeness auto

termination
  by (relation "measure length") (auto simp: read_limit_def)

declare packets.simps [simp del]

text \<open>\<open>out.println\<close> never throws; every piece is run as a command and answered.\<close>

definition println :: "string \<Rightarrow> string \<Rightarrow> connection \<Rightarrow> connection" where
  "println nl cmd c = (if closed (reader c) then c
     else let (rs, w) = serve_all (map chunk_command (packets (cmd @ nl))) (remote c) in
       c\<lparr>reader := (reader c)\<lparr>inbox := inbox (reader c) @ concat rs\<rparr>, remote := w\<rparr>)"

text \<open>\<open>connect\<close>: a new socket, with nothing received yet.\<close>

definition client_connect :: "world \<Rightarrow> connection" where
  "client_connect w = \<lparr>reader = \<lparr>inbox = [], skip_lf = False, closed = False\<rparr>, remote = w\<rparr>"

text \<open>How a method ends: with a value, an \<open>IOException\<close>, or not.\<close>

datatype 'a outcome = Returns 'a | Throws string | Blocks

section \<open>The methods that read one line\<close>

text \<open>Read a line and make a result of it (\<open>null\<close> is \<open>None\<close>), after printing a command.\<close>

definition receive :: "(string option \<Rightarrow> 'a outcome) \<Rightarrow> connection \<Rightarrow> 'a outcome \<times> connection" where
  "receive decode c = (let (l, r) = read_line (reader c) in
     (case l of Line s \<Rightarrow> decode (Some s) | End_of_stream \<Rightarrow> decode None | Waits \<Rightarrow> Blocks,
      c\<lparr>reader := r\<rparr>))"

definition ask :: "string \<Rightarrow> string \<Rightarrow> (string option \<Rightarrow> 'a outcome) \<Rightarrow> connection \<Rightarrow> 'a outcome \<times> connection" where
  "ask nl cmd decode c = receive decode (println nl cmd c)"

text \<open>\<open>Long.parseLong\<close>: an optional sign, then nothing but digits, within 64 bits.\<close>

definition parse_long :: "string \<Rightarrow> int option" where
  "parse_long s = (let (neg, ds) = split_sign s; n = (if neg then - digits_value ds else digits_value ds) in
     if ds \<noteq> [] \<and> list_all isdigit ds \<and> fits64 n then Some n else None)"

definition to_long :: "string option \<Rightarrow> int outcome" where
  "to_long got = (case Option.bind got parse_long of Some n \<Rightarrow> Returns n
     | None \<Rightarrow> Throws (''Invalid response from server: '' @
         (case got of Some s \<Rightarrow> s | None \<Rightarrow> ''null'')))"

definition non_null :: "(string option \<Rightarrow> 'a outcome) \<Rightarrow> string option \<Rightarrow> 'a outcome" where
  "non_null decode got =
     (if got = None then Throws ''No response from server'' else decode got)"

definition nil_to_null :: "string option \<Rightarrow> string option outcome" where
  "nil_to_null got = Returns (if got = Some ''(nil)'' then None else got)"

definition equals :: "string \<Rightarrow> string option \<Rightarrow> bool outcome" where
  "equals expected got = Returns (got = Some expected)"

definition client_ping :: "string \<Rightarrow> connection \<Rightarrow> bool outcome \<times> connection" where
  "client_ping nl = ask nl ''PING'' (equals ''PONG'')"

definition client_set :: "string \<Rightarrow> string \<Rightarrow> string \<Rightarrow> connection \<Rightarrow> unit outcome \<times> connection" where
  "client_set nl key value = ask nl (''SET '' @ key @ '' '' @ value) (non_null (\<lambda>_. Returns ()))"

definition client_get :: "string \<Rightarrow> string \<Rightarrow> connection \<Rightarrow> string option outcome \<times> connection" where
  "client_get nl key = ask nl (''GET '' @ key) nil_to_null"

definition client_incr :: "string \<Rightarrow> string \<Rightarrow> connection \<Rightarrow> int outcome \<times> connection" where
  "client_incr nl key = ask nl (''INCR '' @ key) to_long"

definition client_decr :: "string \<Rightarrow> string \<Rightarrow> connection \<Rightarrow> int outcome \<times> connection" where
  "client_decr nl key = ask nl (''DECR '' @ key) to_long"

definition client_incr_by :: "string \<Rightarrow> string \<Rightarrow> int \<Rightarrow> connection \<Rightarrow> int outcome \<times> connection" where
  "client_incr_by nl key increment =
     ask nl (''INCRBY '' @ key @ '' '' @ to_string increment) to_long"

definition client_hset :: "string \<Rightarrow> string \<Rightarrow> string \<Rightarrow> string \<Rightarrow> connection \<Rightarrow> unit outcome \<times> connection" where
  "client_hset nl key field value =
     ask nl (''HSET '' @ key @ '' '' @ field @ '' '' @ value) (non_null (\<lambda>_. Returns ()))"

definition client_hget :: "string \<Rightarrow> string \<Rightarrow> string \<Rightarrow> connection \<Rightarrow> string option outcome \<times> connection" where
  "client_hget nl key field = ask nl (''HGET '' @ key @ '' '' @ field) nil_to_null"

text \<open>The \<open>StringBuilder\<close> of the variadic methods.\<close>

definition append_all :: "string \<Rightarrow> string list \<Rightarrow> string" where
  "append_all command values = foldl (\<lambda>b v. b @ '' '' @ v) command values"

definition client_lpush :: "string \<Rightarrow> string \<Rightarrow> string list \<Rightarrow> connection \<Rightarrow> int outcome \<times> connection" where
  "client_lpush nl key values = ask nl (append_all (''LPUSH '' @ key) values) (non_null to_long)"

definition client_rpop :: "string \<Rightarrow> string \<Rightarrow> connection \<Rightarrow> string option outcome \<times> connection" where
  "client_rpop nl key = ask nl (''RPOP '' @ key) nil_to_null"

definition client_sadd :: "string \<Rightarrow> string \<Rightarrow> string list \<Rightarrow> connection \<Rightarrow> int outcome \<times> connection" where
  "client_sadd nl key members = ask nl (append_all (''SADD '' @ key) members) (non_null to_long)"

definition client_srem :: "string \<Rightarrow> string \<Rightarrow> string list \<Rightarrow> connection \<Rightarrow> int outcome \<times> connection" where
  "client_srem nl key members = ask nl (append_all (''SREM '' @ key) members) (non_null to_long)"

definition client_sismember :: "string \<Rightarrow> string \<Rightarrow> string \<Rightarrow> connection \<Rightarrow> bool outcome \<times> connection" where
  "client_sismember nl key member = ask nl (''SISMEMBER '' @ key @ '' '' @ member) (equals ''1'')"

definition client_scard :: "string \<Rightarrow> string \<Rightarrow> connection \<Rightarrow> int outcome \<times> connection" where
  "client_scard nl key = ask nl (''SCARD '' @ key) (non_null to_long)"

definition client_expire :: "string \<Rightarrow> string \<Rightarrow> int \<Rightarrow> connection \<Rightarrow> bool outcome \<times> connection" where
  "client_expire nl key seconds =
     ask nl (''EXPIRE '' @ key @ '' '' @ to_string seconds) (equals ''1'')"

definition client_ttl :: "string \<Rightarrow> string \<Rightarrow> connection \<Rightarrow> int outcome \<times> connection" where
  "client_ttl nl key = ask nl (''TTL '' @ key) (non_null to_long)"

section \<open>The methods that read until an empty line\<close>

text \<open>\<open>String.indexOf\<close>.\<close>

primrec index_of :: "string \<Rightarrow> string \<Rightarrow> nat option" where
  "index_of pat [] = (if pat = [] then Some 0 else None)"
| "index_of pat (c # s) =
     (if take (length pat) (c # s) = pat then Some 0 else map_option Suc (index_of pat s))"

definition put_entry :: "string \<Rightarrow> (string \<Rightarrow> string option) \<Rightarrow> string \<Rightarrow> string option" where
  "put_entry got result = (case index_of '': '' got of
     Some colon_index \<Rightarrow> if 0 < colon_index
       then result(take colon_index got \<mapsto> drop (colon_index + 2) got) else result
   | None \<Rightarrow> result)"

text \<open>The loop, with what to do with a line and the line that says that the collection is empty.\<close>

function read_lines :: "string \<Rightarrow> (string \<Rightarrow> 'a \<Rightarrow> 'a) \<Rightarrow> reader \<Rightarrow> 'a \<Rightarrow> 'a outcome \<times> reader" where
  "read_lines empty_response add r result = (case read_line r of
     (Waits, r') \<Rightarrow> (Blocks, r')
   | (End_of_stream, r') \<Rightarrow> (Returns result, r')
   | (Line got, r') \<Rightarrow> if got = [] \<or> got = empty_response then (Returns result, r')
       else read_lines empty_response add r' (add got result))"
  by pat_completeness auto

termination
  by (relation "measure (\<lambda>(_, _, r, _). length (inbox r))") (auto dest: read_line_less [OF sym])

declare read_lines.simps [simp del]

definition ask_lines :: "string \<Rightarrow> string \<Rightarrow> string \<Rightarrow> (string \<Rightarrow> 'a \<Rightarrow> 'a) \<Rightarrow> 'a \<Rightarrow> connection \<Rightarrow> 'a outcome \<times> connection" where
  "ask_lines nl cmd empty_response add result c =
     (let c' = println nl cmd c; (res, r) = read_lines empty_response add (reader c') result in
      (res, c'\<lparr>reader := r\<rparr>))"

definition client_hget_all :: "string \<Rightarrow> string \<Rightarrow> connection \<Rightarrow> (string \<Rightarrow> string option) outcome \<times> connection" where
  "client_hget_all nl key = ask_lines nl (''HGETALL '' @ key) ''(empty hash)'' put_entry (\<lambda>_. None)"

definition client_smembers :: "string \<Rightarrow> string \<Rightarrow> connection \<Rightarrow> string set outcome \<times> connection" where
  "client_smembers nl key = ask_lines nl (''SMEMBERS '' @ key) ''(empty set)'' insert {}"

section \<open>One request, one line\<close>

definition line_separator :: "string \<Rightarrow> bool" where
  "line_separator nl \<longleftrightarrow> nl = [newline] \<or> nl = crlf"

text \<open>Everything received has been read, but for the line feed of the last line.\<close>

definition in_step :: "reader \<Rightarrow> bool" where
  "in_step r \<longleftrightarrow> \<not> closed r \<and> (inbox r = [] \<or> skip_lf r \<and> inbox r = [newline])"

lemma unskipped_in_step:
  assumes "in_step r" and "t \<noteq> []" and "hd t \<noteq> newline"
  shows "unskipped (r\<lparr>inbox := inbox r @ t\<rparr>) = t"
  using assms by (auto simp: in_step_def unskipped_def)

lemma unskipped_next [simp]: "unskipped (r\<lparr>inbox := newline # rest, skip_lf := True\<rparr>) = rest"
  by (simp add: unskipped_def)

lemma hd_line: "one_line s \<Longrightarrow> hd (line s @ rest) \<noteq> newline"
  by (cases s) (auto simp: line_def crlf_def)

lemma read_line_unskipped:
  assumes "unskipped r = line s @ rest" and "one_line s"
  shows "read_line r = (Line s, r\<lparr>inbox := newline # rest, skip_lf := True\<rparr>)"
proof -
  have "\<forall>c \<in> set s. \<not> line_break c" using assms(2) by (auto simp: one_line_def line_break_def)
  then have "takeWhile (\<lambda>c. \<not> line_break c) (line s @ rest) = s"
    "dropWhile (\<lambda>c. \<not> line_break c) (line s @ rest) = carriage_return # newline # rest"
    by (simp_all add: line_def crlf_def line_break_def)
  then show ?thesis by (simp add: read_line_def assms(1))
qed

lemma packets_short: "s \<noteq> [] \<Longrightarrow> length s \<le> read_limit \<Longrightarrow> packets s = [s]"
  by (subst packets.simps) (simp add: packets.simps [of "[]"])

lemma chunk_command_line:
  assumes "one_line cmd" and "line_separator nl"
  shows "chunk_command (cmd @ nl) = cmd"
  using assms by (auto simp: chunk_command_def one_line_def line_separator_def crlf_def filter_id_conv)

lemma println_once:
  assumes "\<not> closed (reader c)" and "one_line cmd" and "line_separator nl"
    and "length (cmd @ nl) \<le> read_limit" and "run_state (handle_command cmd) (remote c) = (t, w)"
  shows "println nl cmd c = c\<lparr>reader := (reader c)\<lparr>inbox := inbox (reader c) @ t\<rparr>, remote := w\<rparr>"
proof -
  have "cmd @ nl \<noteq> []" using assms(3) by (auto simp: line_separator_def crlf_def)
  then have "packets (cmd @ nl) = [cmd @ nl]" using assms(4) by (rule packets_short)
  then show ?thesis
    using assms chunk_command_line [OF assms(2,3)] by (simp add: println_def)
qed

lemma receive_line:
  assumes "unskipped (reader c) = line s @ rest" and "one_line s"
  shows "receive decode c =
    (decode (Some s), c\<lparr>reader := (reader c)\<lparr>inbox := newline # rest, skip_lf := True\<rparr>\<rparr>)"
  using read_line_unskipped [OF assms] by (simp add: receive_def)

lemma ask_line:
  assumes "unskipped (reader (println nl cmd c)) = line s @ rest" and "one_line s"
  shows "fst (ask nl cmd decode c) = decode (Some s)"
  using receive_line [OF assms, of decode] by (simp add: ask_def)

lemma ask_once:
  assumes "in_step (reader c)" and "one_line cmd" and "line_separator nl"
    and "length (cmd @ nl) \<le> read_limit" and "run_state (handle_command cmd) (remote c) = (line s, w)"
    and "one_line s"
  shows "ask nl cmd decode c = (decode (Some s),
      c\<lparr>reader := (reader c)\<lparr>inbox := [newline], skip_lf := True\<rparr>, remote := w\<rparr>)"
proof -
  have "line s \<noteq> []" "hd (line s) \<noteq> newline"
    using hd_line [OF assms(6), of "[]"] by (simp_all add: line_def crlf_def)
  with assms(1) have "unskipped ((reader c)\<lparr>inbox := inbox (reader c) @ line s\<rparr>) = line s @ []"
    by (simp add: unskipped_in_step)
  from read_line_unskipped [OF this assms(6)] show ?thesis
    using assms println_once [OF _ assms(2-5)] by (simp add: ask_def receive_def in_step_def)
qed

section \<open>The client answers what the store answers\<close>

text \<open>The methods that read one line.\<close>

datatype client_method =
    M_ping | M_set string string | M_get string | M_incr string | M_decr string
  | M_incr_by string int | M_hset string string string | M_hget string string
  | M_lpush string "string list" | M_rpop string | M_sadd string "string list"
  | M_srem string "string list" | M_sismember string string | M_scard string
  | M_expire string int | M_ttl string

text \<open>Calling one, its value as a result of \<open>Storage\<close>; a \<open>void\<close> method gives \<open>True\<close>.\<close>

primrec invoke :: "string \<Rightarrow> client_method \<Rightarrow> connection \<Rightarrow> call_result outcome \<times> connection" where
  "invoke nl M_ping c = apfst (map_outcome Yes_no) (client_ping nl c)"
| "invoke nl (M_set k v) c = apfst (map_outcome (\<lambda>_. Yes_no True)) (client_set nl k v c)"
| "invoke nl (M_get k) c = apfst (map_outcome Value_of) (client_get nl k c)"
| "invoke nl (M_incr k) c = apfst (map_outcome Number) (client_incr nl k c)"
| "invoke nl (M_decr k) c = apfst (map_outcome Number) (client_decr nl k c)"
| "invoke nl (M_incr_by k d) c = apfst (map_outcome Number) (client_incr_by nl k d c)"
| "invoke nl (M_hset k f v) c = apfst (map_outcome (\<lambda>_. Yes_no True)) (client_hset nl k f v c)"
| "invoke nl (M_hget k f) c = apfst (map_outcome Value_of) (client_hget nl k f c)"
| "invoke nl (M_lpush k vs) c = apfst (map_outcome Number) (client_lpush nl k vs c)"
| "invoke nl (M_rpop k) c = apfst (map_outcome Value_of) (client_rpop nl k c)"
| "invoke nl (M_sadd k ms) c = apfst (map_outcome Number) (client_sadd nl k ms c)"
| "invoke nl (M_srem k ms) c = apfst (map_outcome Number) (client_srem nl k ms c)"
| "invoke nl (M_sismember k m) c = apfst (map_outcome Yes_no) (client_sismember nl k m c)"
| "invoke nl (M_scard k) c = apfst (map_outcome Number) (client_scard nl k c)"
| "invoke nl (M_expire k s) c = apfst (map_outcome Yes_no) (client_expire nl k s c)"
| "invoke nl (M_ttl k) c = apfst (map_outcome Number) (client_ttl nl k c)"

text \<open>The command it sends, and the call of \<open>Storage\<close> it stands for.\<close>

primrec method_command :: "client_method \<Rightarrow> command" where
  "method_command M_ping = \<lparr>ctype = PING, args = []\<rparr>"
| "method_command (M_set k v) = \<lparr>ctype = SET, args = [k, v]\<rparr>"
| "method_command (M_get k) = \<lparr>ctype = GET, args = [k]\<rparr>"
| "method_command (M_incr k) = \<lparr>ctype = INCR, args = [k]\<rparr>"
| "method_command (M_decr k) = \<lparr>ctype = DECR, args = [k]\<rparr>"
| "method_command (M_incr_by k d) = \<lparr>ctype = INCRBY, args = [k, to_string d]\<rparr>"
| "method_command (M_hset k f v) = \<lparr>ctype = HSET, args = [k, f, v]\<rparr>"
| "method_command (M_hget k f) = \<lparr>ctype = HGET, args = [k, f]\<rparr>"
| "method_command (M_lpush k vs) = \<lparr>ctype = LPUSH, args = k # vs\<rparr>"
| "method_command (M_rpop k) = \<lparr>ctype = RPOP, args = [k]\<rparr>"
| "method_command (M_sadd k ms) = \<lparr>ctype = SADD, args = k # ms\<rparr>"
| "method_command (M_srem k ms) = \<lparr>ctype = SREM, args = k # ms\<rparr>"
| "method_command (M_sismember k m) = \<lparr>ctype = SISMEMBER, args = [k, m]\<rparr>"
| "method_command (M_scard k) = \<lparr>ctype = SCARD, args = [k]\<rparr>"
| "method_command (M_expire k s) = \<lparr>ctype = EXPIRE, args = [k, to_string s]\<rparr>"
| "method_command (M_ttl k) = \<lparr>ctype = TTL, args = [k]\<rparr>"

primrec method_call :: "client_method \<Rightarrow> call" where
  "method_call M_ping = Call_ping"
| "method_call (M_set k v) = Call_set k v"
| "method_call (M_get k) = Call_get k"
| "method_call (M_incr k) = Call_incr k"
| "method_call (M_decr k) = Call_decr k"
| "method_call (M_incr_by k d) = Call_incrby k d"
| "method_call (M_hset k f v) = Call_hset k f v"
| "method_call (M_hget k f) = Call_hget k f"
| "method_call (M_lpush k vs) = Call_lpush k vs"
| "method_call (M_rpop k) = Call_rpop k"
| "method_call (M_sadd k ms) = Call_sadd k ms"
| "method_call (M_srem k ms) = Call_srem k ms"
| "method_call (M_sismember k m) = Call_sismember k m"
| "method_call (M_scard k) = Call_scard k"
| "method_call (M_expire k s) = Call_expire k s"
| "method_call (M_ttl k) = Call_ttl k"

definition sendable :: "string \<Rightarrow> client_method \<Rightarrow> bool" where
  "sendable nl m \<longleftrightarrow> line_separator nl \<and> well_formed (method_command m) \<and> call_ok (method_call m)
     \<and> length (print_command (method_command m) @ nl) \<le> read_limit"

text \<open>The line the server sends for the answer of the call.\<close>

definition reply_text :: "client_method \<Rightarrow> call_result \<Rightarrow> string" where
  "reply_text m a = (case a of
     Number n \<Rightarrow> to_string n
   | Value_of v \<Rightarrow> (case v of Some s \<Rightarrow> s | None \<Rightarrow> ''(nil)'')
   | Yes_no b \<Rightarrow> (case m of M_ping \<Rightarrow> ''PONG'' | M_set _ _ \<Rightarrow> ''OK'' | M_hset _ _ _ \<Rightarrow> ''OK''
       | _ \<Rightarrow> if b then ''1'' else ''0'')
   | _ \<Rightarrow> [])"

lemma execute_method:
  assumes "call_ok (method_call m)" and "well_formed (method_command m)"
  shows "run_state (execute_command (method_command m)) w =
    (line (reply_text m (answer (method_call m) w)), perform (method_call m) w)"
  using assms(1) well_formed_args [OF assms(2)]
  by (cases m)
    (simp_all add: execute_defs Let_def State_Monad.run_state_bind case_prod_beta' answer.simps
      perform.simps reply_text_def variadic_def run_storage_ping)

lemma method_not_unknown: "ctype (method_command m) \<noteq> UNKNOWN"
  by (cases m) simp_all

lemma handle_method:
  assumes "sendable nl m"
  shows "run_state (handle_command (print_command (method_command m))) w =
    (line (reply_text m (answer (method_call m) w)), perform (method_call m) w)"
  using assms parse_print [of "method_command m"] method_not_unknown [of m]
  by (simp add: handle_command_def sendable_def execute_method)

lemma split_sign_nat_digits: "split_sign (nat_digits n) = (False, nat_digits n)"
  using hd_nat_digits [of n] isdigit_not_sign by (cases "nat_digits n") (auto simp: split_sign_def)

lemma parse_long_to_string [simp]: "fits64 n \<Longrightarrow> parse_long (to_string n) = Some n"
  by (simp add: parse_long_def to_string_def split_sign_nat_digits digits_value_nat_digits
      nat_digits_isdigit list_all_iff split_sign_def [of "_ # _"])

text \<open>A value found in the store, in the words of the client: \<open>(nil)\<close> is taken for a missing one.\<close>

definition seen :: "call_result \<Rightarrow> call_result" where
  "seen a = (if a = Value_of (Some ''(nil)'') then Value_of None else a)"

lemma answer_value_of:
  assumes "store_texts P w" and "answer (method_call m) w = Value_of (Some v)"
  shows "P v"
proof (cases m)
  case (M_get k)
  have "all_items P (purge t k (string_data w))" for t
    using assms(1) by (simp add: store_texts_def all_items_purge)
  with M_get assms(2) show ?thesis by (auto simp: exec_simps all_items_def)
next
  case (M_hget k f)
  have "all_items (\<lambda>h. \<forall>f v. umap_find f h = Some v \<longrightarrow> P f \<and> P v) (hashes_at k w)"
    using assms(1) by (simp add: store_texts_def all_items_purge)
  from found_clean_hash [where P = P, OF this, of f k v] M_hget assms(2) show ?thesis
    by (simp add: exec_simps)
next
  case (M_rpop k)
  have "all_items (\<lambda>xs. \<forall>x \<in> set xs. P x) (lists_at k w)"
    using assms(1) by (simp add: store_texts_def all_items_purge)
  from found_clean_list [where P = P, OF this, of _ k] M_rpop assms(2) show ?thesis
    by (auto simp: exec_simps Let_def split: if_splits)
qed (use assms(2) in \<open>simp_all add: answer.simps\<close>)

lemma reply_one_line:
  assumes "store_clean w"
  shows "one_line (reply_text m (answer (method_call m) w))"
proof (cases "answer (method_call m) w")
  case (Value_of v)
  with answer_value_of [OF assms, of m] show ?thesis
    by (cases v) (simp_all add: reply_text_def)
qed (auto simp: reply_text_def split: client_method.split)

lemmas client_defs = client_ping_def client_set_def client_get_def client_incr_def client_decr_def
  client_incr_by_def client_hset_def client_hget_def client_lpush_def client_rpop_def
  client_sadd_def client_srem_def client_sismember_def client_scard_def client_expire_def
  client_ttl_def

lemma append_all_unwords: "append_all (unwords ws) vs = unwords (ws @ vs)" if "ws \<noteq> []"
  using that
proof (induction vs arbitrary: ws)
  case (Cons v vs)
  have "unwords ws @ '' '' @ v = unwords (ws @ [v])" using Cons.prems by (induction ws) simp_all
  with Cons.IH [of "ws @ [v]"] show ?case by (simp add: append_all_def)
qed (simp add: append_all_def)

lemma one_line_print_command: "well_formed cmd \<Longrightarrow> one_line (print_command cmd)"
  unfolding print_command_def
  by (rule one_line_unwords) (auto simp: well_formed_def command_name_token)

text \<open>The state of the connection after a request whose one line has been read.\<close>

definition after_line :: "world \<Rightarrow> connection \<Rightarrow> connection" where
  "after_line w c = c\<lparr>reader := (reader c)\<lparr>inbox := [newline], skip_lf := True\<rparr>, remote := w\<rparr>"

lemma in_step_after_line [simp]: "in_step (reader c) \<Longrightarrow> in_step (reader (after_line w c))"
  by (simp add: after_line_def in_step_def)

lemma remote_after_line [simp]: "remote (after_line w c) = w"
  by (simp add: after_line_def)

lemma ask_method:
  assumes "sendable nl m" and "in_step (reader c)" and "store_clean (remote c)"
  shows "ask nl (print_command (method_command m)) decode c =
    (decode (Some (reply_text m (answer (method_call m) (remote c)))),
     after_line (perform (method_call m) (remote c)) c)"
  unfolding after_line_def
  using assms by (intro ask_once handle_method reply_one_line)
    (auto simp: sendable_def intro: one_line_print_command)

lemma print_variadic:
  "append_all (''LPUSH '' @ k) vs = print_command \<lparr>ctype = LPUSH, args = k # vs\<rparr>"
  "append_all (''SADD '' @ k) vs = print_command \<lparr>ctype = SADD, args = k # vs\<rparr>"
  "append_all (''SREM '' @ k) vs = print_command \<lparr>ctype = SREM, args = k # vs\<rparr>"
  using append_all_unwords [of "[''LPUSH'', k]" vs] append_all_unwords [of "[''SADD'', k]" vs]
    append_all_unwords [of "[''SREM'', k]" vs]
  by (simp_all add: print_command_def)

lemma invoke_method:
  assumes "sendable nl m" and "in_step (reader c)" and "store_clean (remote c)"
    and "\<And>n. answer (method_call m) (remote c) = Number n \<Longrightarrow> fits64 n"
  shows "invoke nl m c = (Returns (seen (answer (method_call m) (remote c))),
    after_line (perform (method_call m) (remote c)) c)"
  using ask_method [where ?'a = bool, OF assms(1-3)] ask_method [where ?'a = unit, OF assms(1-3)]
    ask_method [where ?'a = int, OF assms(1-3)] ask_method [where ?'a = "string option", OF assms(1-3)]
    assms(4)
  by (cases m)
    (auto simp: client_defs print_variadic [unfolded append_Cons append_Nil] print_command_def equals_def nil_to_null_def non_null_def
      to_long_def reply_text_def seen_def answer.simps run_storage_ping run_storage_set
      run_storage_hset split: option.splits)

text \<open>
  A client that calls one method after the other, while other clients of the server send
  requests of any kind between its own.
\<close>

datatype happening = Mine client_method | Others "string list"

primrec invoke_all :: "string \<Rightarrow> happening list \<Rightarrow> connection \<Rightarrow> call_result outcome list \<times> connection" where
  "invoke_all nl [] c = ([], c)"
| "invoke_all nl (e # es) c = (case e of
     Mine m \<Rightarrow> (let (res, c') = invoke nl m c; (rest, c'') = invoke_all nl es c' in (res # rest, c''))
   | Others inputs \<Rightarrow> invoke_all nl es (c\<lparr>remote := snd (serve_all inputs (remote c))\<rparr>))"

text \<open>What \<open>Storage\<close> answers to the calls of this client, and how it ends.\<close>

primrec answers_to :: "happening list \<Rightarrow> world \<Rightarrow> call_result list \<times> world" where
  "answers_to [] w = ([], w)"
| "answers_to (e # es) w = (case e of
     Mine m \<Rightarrow> (let (as, w') = answers_to es (perform (method_call m) w) in (answer (method_call m) w # as, w'))
   | Others inputs \<Rightarrow> answers_to es (snd (serve_all inputs w)))"

lemma handle_single_token:
  assumes "is_token t" and "map toupper t \<noteq> ''PING''"
  shows "run_state (handle_command t) w = (line ''ERROR: Unknown command'', w)"
proof -
  have "tokens t = [t]" using tokens_unwords [of "[t]"] assms(1) by simp
  with assms(2) have "parse t = \<lparr>ctype = UNKNOWN, args = []\<rparr>" by (simp add: parse_def Let_def)
  then show ?thesis by (simp add: handle_command_def execute_defs)
qed

definition countable :: "call_result \<Rightarrow> bool" where
  "countable a \<longleftrightarrow> (case a of Number n \<Rightarrow> fits64 n | _ \<Rightarrow> True)"

lemma method_texts:
  assumes "well_formed (method_command m)"
  shows "\<forall>s \<in> set (call_texts (method_call m)). is_token s"
  using assms by (cases m) (auto simp: well_formed_def)

lemma store_clean_method:
  assumes "sendable nl m" and "store_clean w"
  shows "store_clean (perform (method_call m) w)"
  using assms method_texts [of m]
  by (intro store_texts_perform) (auto simp: sendable_def intro: one_line_token)


lemma client_connect_simps [simp]:
  "in_step (reader (client_connect w))" "remote (client_connect w) = w"
  by (simp_all add: client_connect_def in_step_def)


section \<open>The methods that read a collection\<close>

text \<open>
  What the loop does with complete lines and nothing after them: it takes them all in, then
  waits for another one unless the stream has ended.
\<close>

lemma read_lines_all:
  assumes "unskipped r = concat (map line ls)"
    and "\<forall>l \<in> set ls. one_line l \<and> l \<noteq> [] \<and> l \<noteq> e"
  shows "fst (read_lines e add r result) = (if closed r then Returns (fold add ls result) else Blocks)"
  using assms
proof (induction ls arbitrary: r result)
  case Nil
  then show ?case by (subst read_lines.simps) (simp add: read_line_def)
next
  case (Cons l ls)
  then have "read_line r = (Line l, r\<lparr>inbox := newline # concat (map line ls), skip_lf := True\<rparr>)"
    by (intro read_line_unskipped) simp_all
  with Cons show ?case by (subst read_lines.simps) simp
qed

lemma read_lines_empty:
  assumes "unskipped r = line e" and "one_line e"
  shows "fst (read_lines e add r result) = Returns result"
  using read_line_unskipped [of r e "[]"] assms by (subst read_lines.simps) simp

lemma ask_lines_once:
  assumes "in_step (reader c)" and "one_line cmd" and "line_separator nl"
    and "length (cmd @ nl) \<le> read_limit"
    and "fst (run_state (handle_command cmd) (remote c)) =
      (if ls = [] then line e else concat (map line ls))"
    and "one_line e" and "\<forall>l \<in> set ls. one_line l \<and> l \<noteq> [] \<and> l \<noteq> e"
  shows "fst (ask_lines nl cmd e add result c) = (if ls = [] then Returns result else Blocks)"
proof -
  obtain t w where run: "run_state (handle_command cmd) (remote c) = (t, w)" by fastforce
  then have t: "t = (if ls = [] then line e else concat (map line ls))" using assms(5) by simp
  have "\<exists>l rest. t = line l @ rest \<and> one_line l"
  proof (cases ls)
    case Nil
    then have "t = line e @ []" using t by simp
    with assms(6) show ?thesis by blast
  next
    case (Cons l ls')
    with t assms(7) show ?thesis by auto
  qed
  then obtain l rest where "t = line l @ rest" "one_line l" by blast
  then have "t \<noteq> []" "hd t \<noteq> newline"
    using hd_line [of l rest] by (simp_all add: line_def crlf_def)
  let ?r = "(reader c)\<lparr>inbox := inbox (reader c) @ t\<rparr>"
  have "unskipped ?r = t" using assms(1) \<open>t \<noteq> []\<close> \<open>hd t \<noteq> newline\<close> by (rule unskipped_in_step)
  then have "fst (read_lines e add ?r result) = (if ls = [] then Returns result else Blocks)"
    using t assms(1,6,7) read_lines_all [of ?r ls e add result]
    by (cases "ls = []") (simp_all add: read_lines_empty in_step_def)
  moreover have "println nl cmd c = c\<lparr>reader := ?r, remote := w\<rparr>"
    using assms(1) run by (intro println_once assms) (simp add: in_step_def)
  ultimately show ?thesis by (simp add: ask_lines_def case_prod_beta' Let_def)
qed

text \<open>The lines of a hash are neither empty nor the one for an empty hash.\<close>

lemma entry_lines:
  assumes "\<forall>(f, v) \<in> set es. is_token f \<and> one_line v"
  shows "\<forall>l \<in> set (map (\<lambda>(f, v). f @ '': '' @ v) es).
    one_line l \<and> l \<noteq> [] \<and> l \<noteq> ''(empty hash)''"
proof (intro ballI)
  fix l
  assume "l \<in> set (map (\<lambda>(f, v). f @ '': '' @ v) es)"
  then obtain f v where fv: "(f, v) \<in> set es" "l = f @ '': '' @ v" by auto
  have "contains '': '' l" unfolding fv(2) contains_infix by blast
  moreover have "\<not> contains '': '' ''(empty hash)''" by simp
  ultimately have "l \<noteq> ''(empty hash)''" by metis
  with fv assms show "one_line l \<and> l \<noteq> [] \<and> l \<noteq> ''(empty hash)''"
    by (auto simp: one_line_token)
qed

lemma hash_view_texts:
  assumes "store_texts P w" and "hash_view t w key = Some h" and "h f = Some v"
  shows "P f \<and> P v"
  using assms
  by (auto simp: store_texts_def hash_view_def live_def all_items_def split: option.splits if_splits)

lemma members_texts:
  assumes "store_texts P w" and "x \<in> members_at t w key"
  shows "P x"
  using assms
  by (auto simp: store_texts_def members_at_def set_view_def live_def all_items_def
      split: option.splits if_splits)

text \<open>The fields and values of the hash under a key at the instant of the call.\<close>

definition hash_now :: "string \<Rightarrow> world \<Rightarrow> string \<Rightarrow> string option" where
  "hash_now key w = (case hash_view (hash_time key w) w key of Some h \<Rightarrow> h | None \<Rightarrow> (\<lambda>_. None))"

lemma hget_all_blocks:
  assumes "is_token key" and "line_separator nl" and "length key + 12 \<le> read_limit"
    and "in_step (reader c)" and "store_wf (remote c)" and "store_texts is_token (remote c)"
    and "enumerates (iter_order (remote c))"
  shows "fst (client_hget_all nl key c) =
      (if hash_now key (remote c) = (\<lambda>_. None) then Returns (\<lambda>_. None) else Blocks)"
proof -
  let ?w = "remote c"
  have len: "length nl \<le> 2" using assms(2) by (auto simp: line_separator_def crlf_def)
  obtain es where es: "distinct (map fst es)" "map_of es = hash_now key ?w"
    "fst (run_state (handle_command (unwords [''HGETALL'', key])) ?w) =
      (if es = [] then line ''(empty hash)'' else concat (map (\<lambda>(f, v). line (f @ '': '' @ v)) es))"
    using hgetall_lists_fields [OF assms(1,5,7)] unfolding hash_now_def by blast
  let ?ls = "map (\<lambda>(f, v). f @ '': '' @ v) es"
  have tok: "is_token f \<and> is_token v" if "(f, v) \<in> set es" for f v
    using that es(1,2) hash_view_texts [OF assms(6)] map_of_is_SomeI [OF es(1) that]
    by (auto simp: hash_now_def split: option.splits)
  then have lines: "\<forall>l \<in> set ?ls. one_line l \<and> l \<noteq> [] \<and> l \<noteq> ''(empty hash)''"
    by (intro entry_lines) (auto simp: one_line_token)
  have sent: "one_line (unwords [''HGETALL'', key])" "length (unwords [''HGETALL'', key] @ nl) \<le> read_limit"
    using assms(1,3) len by (simp_all add: one_line_token)
  have got: "fst (run_state (handle_command (unwords [''HGETALL'', key])) ?w) =
      (if ?ls = [] then line ''(empty hash)'' else concat (map line ?ls))"
    unfolding es(3) by (simp add: comp_def case_prod_beta')
  have "fst (ask_lines nl (unwords [''HGETALL'', key]) ''(empty hash)'' put_entry (\<lambda>_. None) c) =
      (if ?ls = [] then Returns (\<lambda>_. None) else Blocks)"
    by (rule ask_lines_once [OF assms(4) sent(1) assms(2) sent(2) got _ lines]) simp
  moreover have "?ls = [] \<longleftrightarrow> hash_now key ?w = (\<lambda>_. None)"
    unfolding es(2) [symmetric] by (cases es) (auto simp: fun_eq_iff)
  ultimately show "fst (client_hget_all nl key c) =
      (if hash_now key ?w = (\<lambda>_. None) then Returns (\<lambda>_. None) else Blocks)"
    by (simp add: client_hget_all_def)
qed

lemma smembers_blocks:
  assumes "is_token key" and "line_separator nl" and "length key + 12 \<le> read_limit"
    and "in_step (reader c)" and "store_wf (remote c)" and "store_texts is_token (remote c)"
    and "enumerates (iter_order (remote c))"
  shows "fst (client_smembers nl key c) =
      (if members_at (set_time key (remote c)) (remote c) key = {} then Returns {} else Blocks)"
proof -
  let ?w = "remote c" and ?S = "members_at (set_time key (remote c)) (remote c) key"
  have len: "length nl \<le> 2" using assms(2) by (auto simp: line_separator_def crlf_def)
  obtain ms where ms: "set ms = ?S" "fst (run_state (handle_command (unwords [''SMEMBERS'', key])) ?w) =
      (if ms = [] then line ''(empty set)'' else concat (map line ms))"
    using smembers_lists_members [OF assms(1,5,7)] by blast
  have "\<forall>m \<in> set ms. is_token m" using ms(1) members_texts [OF assms(6)] by blast
  moreover have not_token: "\<not> is_token ''(empty set)''" "\<not> is_token []"
    by (simp_all add: is_token_def isspace_def)
  ultimately have lines: "\<forall>l \<in> set ms. one_line l \<and> l \<noteq> [] \<and> l \<noteq> ''(empty set)''"
    using not_token by (metis one_line_token)
  have sent: "one_line (unwords [''SMEMBERS'', key])" "length (unwords [''SMEMBERS'', key] @ nl) \<le> read_limit"
    using assms(1,3) len by (simp_all add: one_line_token)
  have "fst (ask_lines nl (unwords [''SMEMBERS'', key]) ''(empty set)'' insert {} c) =
      (if ms = [] then Returns {} else Blocks)"
    by (rule ask_lines_once [OF assms(4) sent(1) assms(2) sent(2) ms(2) _ lines]) simp
  moreover have "ms = [] \<longleftrightarrow> ?S = {}" using ms(1) by (metis set_empty)
  ultimately show "fst (client_smembers nl key c) = (if ?S = {} then Returns {} else Blocks)"
    by (simp add: client_smembers_def)
qed

text \<open>
  C29. Reading a collection does not end: \<open>hgetAll\<close> and \<open>smembers\<close> read until an empty line, which
  the server never sends. They return for a missing or empty collection only, and wait for
  ever on every other, whatever it holds.
\<close>

theorem client_collections_block:
  assumes "is_token key" and "line_separator nl" and "length key + 12 \<le> read_limit"
    and "in_step (reader c)" and "store_wf (remote c)" and "store_texts is_token (remote c)"
    and "enumerates (iter_order (remote c))"
  shows "fst (client_hget_all nl key c) =
      (if hash_now key (remote c) = (\<lambda>_. None) then Returns (\<lambda>_. None) else Blocks)
    \<and> fst (client_smembers nl key c) =
      (if members_at (set_time key (remote c)) (remote c) key = {} then Returns {} else Blocks)"
  using hget_all_blocks [OF assms] smembers_blocks [OF assms] ..

theorem client_collections_block_witness:
  "fst (client_hget_all [newline] ''h'' (client_connect (perform (Call_hset ''h'' ''f'' ''v'') (storage_init (\<lambda>n. 7) rev)))) = Blocks"
proof -
  let ?w = "perform (Call_hset ''h'' ''f'' ''v'') (storage_init (\<lambda>n. 7) rev)"
  have "is_token ''h''" "line_separator [newline]" "length ''h'' + 12 \<le> read_limit" "store_wf ?w"
    "enumerates (iter_order ?w)"
    by (simp_all add: is_token_def isspace_def line_separator_def read_limit_def store_wf_perform
        perform_iter_order)
  moreover have "store_texts is_token ?w"
    by (rule store_texts_perform) (simp_all add: to_string_is_token, simp_all add: is_token_def isspace_def)
  moreover have "hash_now ''h'' ?w ''f'' = Some ''v''"
    by (simp add: hash_now_def exec_simps hash_view_def live_def umap_find_purge storage_init_def
        um.find_empty um.find_put expired_at_def new_item_def)
  then have "hash_now ''h'' ?w \<noteq> (\<lambda>_. None)" by auto
  ultimately show ?thesis
    using client_collections_block [of "''h''" "[newline]" "client_connect ?w"] by simp
qed

text \<open>
  If the server closes the connection after its response, \<open>hgetAll\<close> returns the hash as it was
  sent: every line is split where the server joined it.
\<close>

lemma index_of_separator: "CHR '' '' \<notin> set f \<Longrightarrow> index_of '': '' (f @ '': '' @ v) = Some (length f)"
proof (induction f)
  case (Cons a f)
  then show ?case by (cases f) auto
qed simp

lemma put_entry_line: "CHR '' '' \<notin> set f \<Longrightarrow> f \<noteq> [] \<Longrightarrow> put_entry (f @ '': '' @ v) m = m(f \<mapsto> v)"
  unfolding put_entry_def by (subst index_of_separator) simp_all

lemma fold_put_entries:
  assumes "distinct (map fst es)" and "\<forall>(f, v) \<in> set es. CHR '' '' \<notin> set f \<and> f \<noteq> []"
  shows "fold put_entry (map (\<lambda>(f, v). f @ '': '' @ v) es) m = m ++ map_of es"
  using assms
proof (induction es arbitrary: m)
  case (Cons e es)
  obtain f v where e: "e = (f, v)" by (cases e)
  with Cons.prems have "f \<notin> dom (map_of es)" by (simp add: dom_map_of_conv_image_fst)
  moreover have "put_entry (f @ '': '' @ v) m = m(f \<mapsto> v)"
    using Cons.prems e by (intro put_entry_line) auto
  moreover have "fold put_entry (map (\<lambda>(f, v). f @ '': '' @ v) es) (m(f \<mapsto> v)) = m(f \<mapsto> v) ++ map_of es"
    using Cons.prems by (intro Cons.IH) auto
  ultimately show ?case by (simp add: e map_add_upd_left del: fun_upd_apply append_Cons)
qed simp

lemma hget_all_at_close:
  assumes "closed r" and "unskipped r = hash_lines es" and "distinct (map fst es)"
    and "\<forall>(f, v) \<in> set es. is_token f \<and> one_line v"
  shows "fst (read_lines ''(empty hash)'' put_entry r (\<lambda>_. None)) = Returns (map_of es)"
proof -
  let ?ls = "map (\<lambda>(f, v). f @ '': '' @ v) es"
  have fields: "\<forall>(f, v) \<in> set es. CHR '' '' \<notin> set f \<and> f \<noteq> []"
    using assms(4) by (auto simp: is_token_def isspace_def)
  have lines: "\<forall>l \<in> set ?ls. one_line l \<and> l \<noteq> [] \<and> l \<noteq> ''(empty hash)''"
    using assms(4) by (rule entry_lines)
  have "unskipped r = concat (map line ?ls)"
    using assms(2) by (simp add: hash_lines_def comp_def case_prod_beta')
  from read_lines_all [OF this lines, of put_entry "\<lambda>_. None"] assms(1)
  show ?thesis using fold_put_entries [OF assms(3) fields, of "\<lambda>_. None"] by simp
qed

section \<open>Requests longer than one read\<close>

lemma packets_two:
  assumes "read_limit < length s" and "length s \<le> 2 * read_limit"
  shows "packets s = [take read_limit s, drop read_limit s]"
proof -
  have "s \<noteq> []" using assms(1) by auto
  then have "packets s = take read_limit s # packets (drop read_limit s)" by (subst packets.simps) simp
  also have "packets (drop read_limit s) = [drop read_limit s]"
    using assms by (intro packets_short) auto
  finally show ?thesis .
qed

lemma is_token_parts:
  assumes "is_token t" and "0 < n" and "n < length t"
  shows "is_token (take n t)" and "is_token (drop n t)"
  using assms by (auto simp: is_token_def dest: in_set_takeD in_set_dropD)

lemma packets_cut:
  assumes "k + length key + 5 = read_limit" and "0 < k" and "k < length value"
    and "length key + length value + 7 \<le> 2 * read_limit" and "length nl \<le> 2"
  shows "packets ((''SET '' @ key @ '' '' @ value) @ nl) =
    [unwords [''SET'', key, take k value], drop k value @ nl]"
proof -
  let ?p = "''SET '' @ key @ '' ''" and ?cmd = "''SET '' @ key @ '' '' @ value"
  have limit: "read_limit = length ?p + k" using assms(1) by simp
  have "take (length ?p + k) (?p @ value @ nl) = ?p @ take k value"
    "drop (length ?p + k) (?p @ value @ nl) = drop k value @ nl"
    using assms(3) by (simp_all only: take_append drop_append) simp_all
  then have "take read_limit (?cmd @ nl) = unwords [''SET'', key, take k value]"
    "drop read_limit (?cmd @ nl) = drop k value @ nl"
    using assms(2,3) unfolding limit by simp_all
  with packets_two [of "?cmd @ nl"] assms show ?thesis by (simp del: append_Cons)
qed

lemma set_cut:
  assumes "is_token key" and "is_token value" and "line_separator nl" and "in_step (reader c)"
    and "k + length key + 5 = read_limit" and "0 < k" and "k < length value"
    and "length key + length value + 7 \<le> 2 * read_limit"
    and "map toupper (drop k value) \<noteq> ''PING''"
  obtains w where
    "client_set nl key value c = (Returns (),
      c\<lparr>reader := (reader c)\<lparr>inbox := newline # line ''ERROR: Unknown command'', skip_lf := True\<rparr>, remote := w\<rparr>)"
    "umap_find key (string_data w) = Some (new_item (take k value))"
proof -
  let ?cmd = "''SET '' @ key @ '' '' @ value" and ?err = "line ''ERROR: Unknown command''"
  let ?first = "unwords [''SET'', key, take k value]"
  have parts: "is_token (take k value)" "is_token (drop k value)"
    using assms(2,6,7) by (auto intro: is_token_parts)
  have "length nl \<le> 2" using assms(3) by (auto simp: line_separator_def crlf_def)
  note pk = packets_cut [OF assms(5-8) this]
  have chunks: "chunk_command ?first = ?first" "chunk_command (drop k value @ nl) = drop k value"
    using chunk_command_line [OF one_line_token [OF parts(2)] assms(3)] assms(1) parts(1)
    by (auto simp: one_line_token chunk_command_one_line)
  obtain w where w: "run_state (handle_command ?first) (remote c) = (line ''OK'', w)"
    "umap_find key (string_data w) = Some (new_item (take k value))"
    using run_command_text [of SET "[key, take k value]"] assms(1) parts(1)
    by (simp add: well_formed_def variadic_def execute_defs State_Monad.run_state_bind exec_simps)
  have sent: "println nl ?cmd c = c\<lparr>reader := (reader c)\<lparr>inbox := inbox (reader c) @ line ''OK'' @ ?err\<rparr>, remote := w\<rparr>"
  proof -
    have "serve_all (map chunk_command (packets (?cmd @ nl))) (remote c) = ([line ''OK'', ?err], w)"
      unfolding pk using w(1) handle_single_token [OF parts(2) assms(9)] chunks
      by (simp del: append_Cons append.simps unwords.simps)
    then show ?thesis using assms(4) unfolding println_def in_step_def by (simp only: Let_def) simp
  qed
  have "unskipped ((reader c)\<lparr>inbox := inbox (reader c) @ line ''OK'' @ ?err\<rparr>) = line ''OK'' @ ?err"
    using assms(4) by (intro unskipped_in_step) (simp_all add: line_def)
  from read_line_unskipped [OF this] have "client_set nl key value c = (Returns (),
      c\<lparr>reader := (reader c)\<lparr>inbox := newline # ?err, skip_lf := True\<rparr>, remote := w\<rparr>)"
    by (simp add: client_set_def ask_def receive_def sent non_null_def del: append_Cons)
  with w(2) show thesis by (rule that [rotated])
qed



section \<open>Opening, closing and the asynchronous methods\<close>

text \<open>
  A \<open>RedicraftClient\<close> before \<open>connect\<close> (its fields are \<open>null\<close>), with a connection, and after
  \<open>close\<close>: what is printed is dropped and reading throws.
\<close>

datatype client = Unconnected | Open connection | Shut world

text \<open>\<open>connect\<close>: \<open>None\<close> if the socket cannot be opened, which leaves the client as it was.\<close>

definition client_open :: "world option \<Rightarrow> client \<Rightarrow> unit outcome \<times> client" where
  "client_open server s = (case server of
     None \<Rightarrow> (Throws ''Connection refused'', s)
   | Some w \<Rightarrow> (Returns (), Open (client_connect w)))"

definition call_client :: "(connection \<Rightarrow> 'a outcome \<times> connection) \<Rightarrow> client \<Rightarrow> 'a outcome \<times> client" where
  "call_client op s = (case s of
     Unconnected \<Rightarrow> (Throws ''NullPointerException'', s)
   | Open c \<Rightarrow> (let (res, c') = op c in (res, Open c'))
   | Shut w \<Rightarrow> (Throws ''Stream closed'', s))"

text \<open>
  \<open>close\<close> closes the reader first, which takes the reader's lock; \<open>busy\<close>: another thread is in
  \<open>readLine\<close> and holds it.
\<close>

definition client_close :: "bool \<Rightarrow> client \<Rightarrow> unit outcome \<times> client" where
  "client_close busy s = (case s of
     Open c \<Rightarrow> if busy then (Blocks, s) else (Returns (), Shut (remote c))
   | _ \<Rightarrow> (Returns (), s))"

text \<open>\<open>supplyAsync\<close>: the future of a method that runs on the shared pool of threads.\<close>

datatype 'a future = Completed 'a | Failed string | Pending

primrec supply_async :: "'a outcome \<Rightarrow> 'a future" where
  "supply_async (Returns x) = Completed x"
| "supply_async (Throws e) = Failed e"
| "supply_async Blocks = Pending"

text \<open>A closed client answers nothing more, and leaves the store alone, until it connects again.\<close>

lemma closed_client:
  assumes "client_close False (Open c) = (res, s)"
  shows "call_client op s = (Throws ''Stream closed'', s) \<and> client_close b s = (Returns (), s)
    \<and> client_open (Some w) s = (Returns (), Open (client_connect w))"
  using assms by (auto simp: client_close_def call_client_def client_open_def)

text \<open>
  A waiting \<open>hgetAll\<close> cannot be given up: its future stays pending, and \<open>close\<close> on another
  thread waits for the reader that it holds.
\<close>

lemma hget_all_cannot_be_closed:
  assumes "is_token key" and "line_separator nl" and "length key + 12 \<le> read_limit"
    and "in_step (reader c)" and "store_wf (remote c)" and "store_texts is_token (remote c)"
    and "enumerates (iter_order (remote c))" and "hash_now key (remote c) f = Some v"
  shows "let (res, s) = call_client (client_hget_all nl key) (Open c) in
    supply_async res = Pending \<and> client_close (res = Blocks) s = (Blocks, s)"
proof -
  have "hash_now key (remote c) \<noteq> (\<lambda>_. None)" using assms(8) by auto
  then have "fst (client_hget_all nl key c) = Blocks"
    using hget_all_blocks [OF assms(1-7)] by simp
  then show ?thesis by (simp add: call_client_def client_close_def case_prod_beta' Let_def)
qed

section \<open>Two threads on one client\<close>

text \<open>
  The asynchronous methods run on a shared pool of threads and nothing keeps two calls on one
  client apart: when both have printed their requests before either reads, the one that reads
  first gets the answer to the other's request.
\<close>

lemma concurrent_gets_swap:
  assumes "sendable nl (M_get a)" and "sendable nl (M_get b)" and "in_step (reader c)"
    and "store_clean (remote c)"
  shows "let w = remote c; w' = perform (Call_get a) w;
      sent = println nl (''GET '' @ b) (println nl (''GET '' @ a) c);
      (result_b, c') = receive nil_to_null sent; (result_a, c'') = receive nil_to_null c' in
      map_outcome Value_of result_b = Returns (seen (answer (Call_get a) w))
    \<and> map_outcome Value_of result_a = Returns (seen (answer (Call_get b) w'))"
proof -
  let ?w = "remote c" and ?w' = "perform (Call_get a) (remote c)"
  let ?text = "\<lambda>k w. reply_text (M_get k) (answer (Call_get k) w)"
  have clean: "store_clean ?w'"
    using store_clean_method [OF assms(1,4)] by simp
  have one: "one_line (?text a ?w)" "one_line (?text b ?w')"
    using reply_one_line [OF assms(4), of "M_get a"] reply_one_line [OF clean, of "M_get b"] by simp_all
  have cmd: "print_command (method_command (M_get k)) = ''GET '' @ k" for k
    by (simp add: print_command_def)
  note run = handle_method [OF assms(1), unfolded cmd] handle_method [OF assms(2), unfolded cmd]
  have words: "one_line (''GET '' @ a)" "one_line (''GET '' @ b)" "line_separator nl"
    "length ((''GET '' @ a) @ nl) \<le> read_limit" "length ((''GET '' @ b) @ nl) \<le> read_limit"
    using assms(1,2) by (auto simp: sendable_def print_command_def well_formed_def one_line_token)
  let ?in = "inbox (reader c) @ line (?text a ?w) @ line (?text b ?w')"
  have sent: "println nl (''GET '' @ b) (println nl (''GET '' @ a) c) =
      c\<lparr>reader := (reader c)\<lparr>inbox := ?in\<rparr>, remote := perform (Call_get b) ?w'\<rparr>"
    using assms(3) println_once [OF _ words(1,3,4) run(1)] println_once [OF _ words(2,3,5) run(2)]
    by (simp add: in_step_def)
  have "unskipped ((reader c)\<lparr>inbox := ?in\<rparr>) = line (?text a ?w) @ line (?text b ?w')"
    using assms(3) hd_line [OF one(1)] by (intro unskipped_in_step) (simp_all add: line_def crlf_def)
  note first = receive_line [of "c\<lparr>reader := (reader c)\<lparr>inbox := ?in\<rparr>, remote := perform (Call_get b) ?w'\<rparr>",
      simplified, OF this one(1)]
  have decoded: "map_outcome Value_of (nil_to_null (Some (?text k w))) = Returns (seen (answer (Call_get k) w))" for k w
    by (auto simp: reply_text_def nil_to_null_def seen_def answer.simps split: option.splits)
  let ?c' = "c\<lparr>remote := perform (Call_get b) ?w',
      reader := (reader c)\<lparr>inbox := newline # line (?text b ?w'), skip_lf := True\<rparr>\<rparr>"
  have "fst (receive nil_to_null ?c') = nil_to_null (Some (?text b ?w'))"
    using receive_line [of ?c' "?text b ?w'" "[]" nil_to_null] one(2) by simp
  then show ?thesis unfolding sent Let_def by (simp add: first decoded case_prod_beta')
qed

end
