(* ===== verification/Connection_Pool.thy ===== *)
theory Connection_Pool
  imports Java_Client
begin

text \<open>
  \<open>ConnectionPool\<close> (Java): at most \<open>maxConnections\<close> clients, lent to one user at a time. A
  semaphore counts the permits to borrow, a queue keeps the clients that were given back. The
  lemmas: what holds in every state reached by users who give back what they borrowed, once,
  and close the pool when nothing is on loan; and what goes wrong: a failed connection
  costs a permit for good, closing with a client on loan makes permits out of nothing, and a
  client given back twice is lent to two users.

  Clients are numbers; the counters stay below 2 to the 31.
\<close>

section \<open>The pool\<close>

record pool =
  available_connections :: "nat list"
  current_connections :: int
  permits :: int

definition pool_create :: "nat \<Rightarrow> pool" where
  "pool_create max_connections =
     \<lparr>available_connections = [], current_connections = 0, permits = int max_connections\<rparr>"

datatype pool_result = Client nat | Timed_out | Connect_failed

text \<open>
  \<open>getConnection\<close>: \<open>fresh\<close> is the client that connecting would give, or \<open>None\<close> when it throws.
  Without a permit, the five seconds pass and the call throws.
\<close>

definition get_connection :: "nat option \<Rightarrow> pool \<Rightarrow> pool_result \<times> pool" where
  "get_connection fresh p =
     (if permits p \<le> 0 then (Timed_out, p)
      else let p = p\<lparr>permits := permits p - 1\<rparr> in
        case available_connections p of
          client # rest \<Rightarrow> (Client client, p\<lparr>available_connections := rest\<rparr>)
        | [] \<Rightarrow> (case fresh of
            None \<Rightarrow> (Connect_failed, p)
          | Some client \<Rightarrow> (Client client, p\<lparr>current_connections := current_connections p + 1\<rparr>)))"

definition return_connection :: "nat option \<Rightarrow> pool \<Rightarrow> pool" where
  "return_connection client p = (case client of None \<Rightarrow> p
     | Some c \<Rightarrow> p\<lparr>available_connections := available_connections p @ [c], permits := permits p + 1\<rparr>)"

text \<open>
  \<open>closeAllConnections\<close>: whether it returns, and the pool. \<open>release\<close> throws an
  \<open>IllegalArgumentException\<close> when its argument is negative.
\<close>

definition close_all_connections :: "nat \<Rightarrow> pool \<Rightarrow> bool \<times> pool" where
  "close_all_connections max_connections p =
     (let p = p\<lparr>available_connections := [], current_connections := 0\<rparr>;
          n = int max_connections - permits p in
      if n < 0 then (False, p) else (True, p\<lparr>permits := permits p + n\<rparr>))"

definition get_active_connections :: "pool \<Rightarrow> int" where
  "get_active_connections p = current_connections p"

definition get_available_connections :: "pool \<Rightarrow> int" where
  "get_available_connections p = int (length (available_connections p))"

section \<open>Users of the pool\<close>

text \<open>
  The pool, the clients on loan, how often connecting failed since the pool was last closed, and
  how many clients there have been.
\<close>

record pool_users =
  the_pool :: pool
  on_loan :: "nat list"
  failures :: nat
  clients_made :: nat

definition pool_users_init :: "nat \<Rightarrow> pool_users" where
  "pool_users_init n = \<lparr>the_pool = pool_create n, on_loan = [], failures = 0, clients_made = 0\<rparr>"

inductive pool_step :: "nat \<Rightarrow> pool_users \<Rightarrow> pool_users \<Rightarrow> bool" for n where
  borrow: "fresh = None \<or> fresh = Some (clients_made s) \<Longrightarrow>
    get_connection fresh (the_pool s) = (Client c, p) \<Longrightarrow>
    pool_step n s (s\<lparr>the_pool := p, on_loan := c # on_loan s,
      clients_made := max (clients_made s) (Suc c)\<rparr>)"
| time_out: "get_connection fresh (the_pool s) = (Timed_out, p) \<Longrightarrow> pool_step n s (s\<lparr>the_pool := p\<rparr>)"
| connect_fails: "get_connection None (the_pool s) = (Connect_failed, p) \<Longrightarrow>
    pool_step n s (s\<lparr>the_pool := p, failures := Suc (failures s)\<rparr>)"
| give_back: "c \<in> set (on_loan s) \<Longrightarrow>
    pool_step n s (s\<lparr>the_pool := return_connection (Some c) (the_pool s), on_loan := remove1 c (on_loan s)\<rparr>)"
| close: "on_loan s = [] \<Longrightarrow> close_all_connections n (the_pool s) = (True, p) \<Longrightarrow>
    pool_step n s (s\<lparr>the_pool := p, failures := 0\<rparr>)"

inductive pool_reachable :: "nat \<Rightarrow> pool_users \<Rightarrow> bool" for n where
  start: "pool_reachable n (pool_users_init n)"
| step: "pool_reachable n s \<Longrightarrow> pool_step n s s' \<Longrightarrow> pool_reachable n s'"

inductive_cases pool_stepE: "pool_step n s s'"

definition pool_ok :: "nat \<Rightarrow> pool_users \<Rightarrow> bool" where
  "pool_ok n s \<longleftrightarrow>
     permits (the_pool s) + int (length (on_loan s)) + int (failures s) = int n
   \<and> 0 \<le> permits (the_pool s)
   \<and> get_active_connections (the_pool s) =
       int (length (on_loan s)) + get_available_connections (the_pool s)
   \<and> get_active_connections (the_pool s) \<le> int n
   \<and> distinct (on_loan s @ available_connections (the_pool s))
   \<and> (\<forall>c \<in> set (on_loan s @ available_connections (the_pool s)). c < clients_made s)"

lemmas pool_defs = pool_ok_def get_active_connections_def get_available_connections_def

lemma get_connection_cases:
  assumes "get_connection fresh p = (r, p')"
  shows "case r of
      Timed_out \<Rightarrow> permits p \<le> 0 \<and> p' = p
    | Connect_failed \<Rightarrow> 0 < permits p \<and> available_connections p = [] \<and> fresh = None
        \<and> p' = p\<lparr>permits := permits p - 1\<rparr>
    | Client c \<Rightarrow> 0 < permits p \<and> permits p' = permits p - 1 \<and>
        (available_connections p = c # available_connections p'
           \<and> current_connections p' = current_connections p
         \<or> available_connections p = [] \<and> available_connections p' = [] \<and> fresh = Some c
           \<and> current_connections p' = current_connections p + 1)"
  using assms by (auto simp: get_connection_def Let_def split: if_splits list.splits option.splits)

lemma pool_ok_step:
  assumes "pool_step n s s'" and "pool_ok n s"
  shows "pool_ok n s'"
  using assms(1)
proof (cases rule: pool_step.cases)
  case (borrow fresh c p)
  from get_connection_cases [OF borrow(3)] borrow(1,2) assms(2) show ?thesis
    by (auto simp: pool_defs less_max_iff_disj)
next
  case (time_out fresh p)
  from get_connection_cases [OF time_out(2)] time_out(1) assms(2) show ?thesis
    by (simp add: pool_defs)
next
  case (connect_fails p)
  from get_connection_cases [OF connect_fails(2)] connect_fails(1) assms(2) show ?thesis
    by (auto simp: pool_defs)
next
  case (give_back c)
  from assms(2) have d: "distinct (on_loan s)" by (simp add: pool_ok_def)
  have "1 \<le> length (on_loan s)" using give_back(2) by (cases "on_loan s") auto
  then have len: "int (length (remove1 c (on_loan s))) = int (length (on_loan s)) - 1"
    using give_back(2) by (simp add: length_remove1 of_nat_diff)
  show ?thesis
    using assms(2) give_back(2) d
    by (simp add: give_back(1) pool_defs return_connection_def len set_remove1_eq) auto
next
  case (close p)
  with assms(2) show ?thesis
    by (auto simp: pool_defs close_all_connections_def Let_def split: if_splits)
qed



text \<open>
  Closing with a client on loan: when it is given back the pool has one permit more than its
  maximum, and closing the pool again throws.
\<close>

lemma close_with_loan_adds_permits:
  assumes "0 < n" and "get_connection (Some c) (pool_create n) = (Client c, p)"
  shows "let q = return_connection (Some c) (snd (close_all_connections n p)) in
      permits q = int n + 1 \<and> \<not> fst (close_all_connections n q)"
  using assms
  by (auto simp: pool_create_def get_connection_def return_connection_def close_all_connections_def Let_def)

text \<open>
  Giving a client back twice: \<open>returnConnection\<close> takes it both times, and two users get the
  same client, of a pool that lends two while it has made one.
\<close>

lemma double_return_lends_twice:
  assumes "get_connection (Some c) (pool_create n) = (Client c, p)" and "1 < n"
  shows "let q = return_connection (Some c) (return_connection (Some c) p);
             (r, q') = get_connection fresh q
      in r = Client c \<and> fst (get_connection fresh' q') = Client c \<and> current_connections q' = 1"
  using assms
  by (auto simp: pool_create_def get_connection_def return_connection_def Let_def)

end
