(* ===== verification/Spec2Isabelle.thy ===== *)
theory Spec2Isabelle
  imports Prelude Cxx_String Unordered_Map Locks Critical_Sections Storage Storage_Exec Storage_Spec Storage_Sets
    Storage_Expiry Storage_Locking Storage_Local Storage_Interleaving Parser Session_Handler Session_Protocol Session_Loop
    Config_Loader Persistence Services Persistence_Service Replication Cluster Cluster_Concurrency Server Program
    Benchmark Java_Client Connection_Pool
begin

text \<open>
  RediCraft: a Redis-like key-value server for Minecraft servers, in C++17 over asio
  (\<open>RediCraft-Server/\<close>). This library models the server program and its client library.

  \<^bold>\<open>The program.\<close> \<open>main\<close> reads \<open>redicraft.conf\<close> (\<open>Config\<close>), creates a \<open>Server\<close>, enables
  replication and clustering as configured and runs an \<open>io_context\<close> on several threads. The
  server accepts connections; each is a \<open>Session\<close> that reads a chunk of bytes, hands it to
  \<open>Parser::parse\<close>, executes the command on the one \<open>Storage\<close> all sessions share, writes the
  response and reads again. \<open>Storage\<close> keeps strings, hashes, lists and sets in four hash maps
  with a \<open>std::shared_mutex\<close> each and expires keys lazily. \<open>ReplicationManager\<close> and
  \<open>ClusterManager\<close> run threads of their own that listen for slaves or nodes.
  \<open>PersistenceManager\<close> saves the store to a text file at an interval and loads it (no other
  part of the program creates one). \<open>benchmark.cpp\<close> is a second program over \<open>Storage\<close>. The Java
  library in \<open>RediCraft-API/\<close> is the client: \<open>RedicraftClient\<close> talks to one session, and a
  \<open>ConnectionPool\<close> lends clients to the threads of a Minecraft plugin.

  \<^bold>\<open>The theories.\<close>
  \<^item> \<open>Prelude\<close>: theorem collections (\<open>exec_simps\<close>, \<open>trace_simps\<close>, \<open>view_simps\<close>), 64-, 32- and
    16-bit signed integers as \<open>int\<close> with the wrap-around written out, the state monad.
  \<^item> \<open>Cxx_String\<close>: what the source uses of \<open>std::string\<close>, \<open>std::istringstream\<close>,
    \<open>std::getline\<close>, \<open>std::stoi\<close>, \<open>std::stoll\<close> and \<open>std::to_string\<close>.
  \<^item> \<open>Unordered_Map\<close>: \<open>std::unordered_map\<close> as an association list, the contract \<open>kv_map\<close> of
    its operations (a locale, interpreted here) and its iteration order, a parameter: any
    function that permutes the keys (\<open>enumerates\<close>).
  \<^item> \<open>Locks\<close>: \<open>std::shared_mutex\<close>: lock calls as events, the preconditions of the standard
    for one thread (\<open>run_events\<close>, \<open>lawful\<close>), any number of threads (\<open>lock_step\<close>) with
    reader-writer exclusion, self-deadlock, deadlock freedom and termination.
  \<^item> \<open>Critical_Sections\<close>: operations on data under one such mutex as sequences of small steps, the
    interleaving of any number of threads, and the locale \<open>guarded\<close> that proves them
    serialisable and terminating, and free of deadlock unless one waits for ever while it
    holds the mutex (\<open>Hang\<close>).
  \<^item> \<open>Storage\<close>: \<open>storage.h\<close> and \<open>storage.cpp\<close>, one definition per member function, in the
    state monad over \<open>world\<close> (the four maps, the clock, the lock events made so far).
    \<open>Storage_Exec\<close> computes each operation in closed form (locale \<open>keyspace\<close>, interpreted on
    the four keyspaces). \<open>Storage_Spec\<close> (isolation, refinement of partial maps and lists,
    counters), \<open>Storage_Sets\<close> (the store invariant, refinement of sets), \<open>Storage_Expiry\<close>
    (\<open>expire\<close> and \<open>ttl\<close>), \<open>Storage_Locking\<close> (the lock discipline), \<open>Storage_Local\<close> (a call
    depends on its own key only) and \<open>Storage_Interleaving\<close> (calls of other threads between
    the blocks of \<open>expire\<close>) state what it promises, over an operation's result and over the
    type \<open>call\<close> of calls.
  \<^item> \<open>Parser\<close>: \<open>parse\<close>, the arity of its results, a printer it inverts.
  \<^item> \<open>Session_Handler\<close>: \<open>handle_command\<close>, one definition per case of its switch.
    \<open>Session_Protocol\<close>: the text protocol: framing, errors, commands end to end.
    \<open>Session_Loop\<close>: \<open>do_read\<close>, \<open>do_write\<close> and the acceptor as a step relation over any number
    of connections, with its invariant.
  \<^item> \<open>Config_Loader\<close>: the settings, their defaults, the loader, a printer it inverts.
  \<^item> \<open>Services\<close>: the contract \<open>service\<close> of everything that is started and stopped with its
    threads (a locale; \<open>Replication\<close>, \<open>Cluster\<close> and \<open>Persistence_Service\<close> interpret it five
    times), and the accept loop the master and the cluster listener share.
  \<^item> \<open>Persistence\<close>: the file format, saving (with the calls that clients make meanwhile) and
    loading. \<open>Persistence_Service\<close>: worker and saving threads, the schedule of the saving
    loop, recovery from the last saving.
  \<^item> \<open>Replication\<close>: master and slave services and what travels between them.
  \<^item> \<open>Cluster\<close>: the node list, the listener, discovery, routing, hash slots.
    \<open>Cluster_Concurrency\<close>: the operations on the node list step by step under \<open>nodes_mutex_\<close>
    (interpretation of \<open>guarded\<close>).
  \<^item> \<open>Server\<close>: \<open>server.cpp\<close>, and \<open>main.cpp\<close>.
  \<^item> \<open>Program\<close>: the running server as a step relation: acceptor, sessions and the operations of
    its interface, from any start of \<open>main\<close>, with the handlers of other sessions changing the
    store between its steps.
  \<^item> \<open>Benchmark\<close>: the three loops of \<open>benchmark.cpp\<close>.
  \<^item> \<open>Java_Client\<close>: \<open>RedicraftClient\<close> and the bytes between it and its session, one definition per
    method, composed with \<open>handle_command\<close>. \<open>Connection_Pool\<close>: \<open>ConnectionPool\<close>.

  \<^bold>\<open>What is proved\<close> (the paragraphs marked C1 to C40).
  \<^item> The store: read-your-writes, isolation of keys, refinement of the four keyspaces to partial
    maps at every instant, the invariant of all reachable stores, exact counters up to
    overflow, \<open>lrange\<close> within bounds, queues, \<open>ttl\<close> and \<open>expire\<close>, independence of keys.
  \<^item> The locks: every sweeping operation asks for a mutex it owns, so that its behaviour is
    undefined, and a storing one never returns where the mutex blocks; the other
    operations finish under every schedule of any number of threads. The node list of the
    cluster, whose operations lock properly, is serialisable under every schedule, and its
    operations finish unless a pinged node stays silent: then nothing moves any more.
  \<^item> The protocol: types of parsed commands, print and parse, one call per command, framing of
    every response, and, of the running program, the order of the responses of each
    connection, whatever the handlers of the others do to the store.
  \<^item> The client: its single-line methods answer what the store answers and stay in step with the
    server; reading a non-empty collection never returns; a request longer than one read
    breaks the correspondence of requests and responses; the bounds of the pool.
  \<^item> Configuration, persistence, replication, clustering, server: round trips with their
    exact conditions and losses, what a discovery round marks, hash slots modulo 16384, what a configuration
    starts and what \<open>stop\<close> stops.

  \<^bold>\<open>Choices and bounds.\<close>
  \<^item> The results and states of \<open>Storage\<close> operations are those of an execution in which every
    lock call returns; the events say which lock calls those are, and \<open>Storage_Locking\<close>
    judges them. Between lock and unlock an operation of \<open>Storage\<close> runs as one step, and outside
    \<open>Storage_Interleaving\<close> and \<open>Persistence\<close> the whole operation does. The operations of \<open>ClusterManager\<close> are one
    step in \<open>Cluster\<close>; \<open>Cluster_Concurrency\<close> proves that this loses nothing.
  \<^item> Time is a parameter: the sequence of values that the readings of \<open>steady_clock\<close> give, in
    nanoseconds, assumed to be monotonic (\<open>steady\<close>) only where a theorem says so.
  \<^item> Signed overflow is an event of its own, and the wrapped value the result.
  \<^item> \<open>char\<close> is signed and \<open>size_t\<close> has 64 bits in the hash of \<open>Cluster\<close>.
  \<^item> The client is modelled alone with its session: what it prints reaches the server in one
    piece, which reads at most 1024 bytes of it at a time, and characters stand for bytes.
  \<^item> The operating system and asio are parameters: how starting a service ends (\<open>launch\<close>), what
    each reading of a running flag gives, how a read, a connection attempt or an exchange
    over the network ends, if it ends (a peer may stay silent: \<open>None\<close>), and whether a file
    opens and how much of it is written (\<open>output_file\<close>). No fuel is needed: the loops that run while a flag is set are
    recursive on the list of what their iterations find.
  \<^item> A thread that is joined is taken to end: that closing an acceptor wakes a blocking accept
    is up to asio, and that \<open>startNodeDiscovery\<close> and \<open>startAutoPersistence\<close> can create their
    one thread is assumed.

  \<^bold>\<open>Not modelled.\<close> Printing to the console (the messages of a slave apart), the measuring of
  times in the benchmark, the division of the handlers among the threads of \<open>main\<close> (\<open>Program\<close>
  runs each command of a session as one step, with the store changed arbitrarily between two;
  \<open>Storage_Interleaving\<close> shows what other calls between the lock sections of \<open>expire\<close> do), the data race of \<open>createSnapshot\<close> with running
  operations (calls fall between the copies of the four maps, but the copy of one map is one
  step here), memory exhaustion, savings that overlap (a saving that takes longer than the 30 seconds
  \<open>autoPersistenceLoop\<close> waits for it), and the detached threads that outlive the object they use. Of the Java client
  the charset. The plugin examples, the tests, the guides and the build files are not part
  of the program.
\<close>

end
